theory Spec2Isabelle
  imports Complex_Main
begin

section \<open>Python strings\<close>

text \<open>
  A Python \<open>str\<close> is a sequence of Unicode code points and \<open>len\<close> counts code points,
  so a string is a list of natural numbers. \<open>lit\<close> turns an ASCII literal into such a
  list: \<open>lit ''ab'' = [97, 98]\<close>.
\<close>

type_synonym pystr = "nat list"

definition lit :: "string \<Rightarrow> pystr" where
  "lit s = map of_char s"

text \<open>
  The interpreter's Unicode tables are not part of the repository. The small one (white
  space) is written out below; the large ones are a parameter of the model, consulted
  only for code points from 128 on:
  \<^item> \<open>u_isalnum\<close>: \<open>str.isalnum\<close> of a code point (what the regular expression class
    \<open>\w\<close> accepts besides the underscore);
  \<^item> \<open>u_upper\<close>, \<open>u_lower\<close>, \<open>u_capitalize\<close>, \<open>u_title\<close>: the methods \<open>str.upper\<close>,
    \<open>str.lower\<close>, \<open>str.capitalize\<close>, \<open>str.title\<close> on a string that has a code point
    from 128 on (they are given the whole string, since the full case mapping can change
    the length and depends on context).
  On ASCII strings the methods are the definitions below, whatever the tables are.
\<close>

record unicode =
  u_isalnum :: "nat \<Rightarrow> bool"
  u_upper :: "pystr \<Rightarrow> pystr"
  u_lower :: "pystr \<Rightarrow> pystr"
  u_capitalize :: "pystr \<Rightarrow> pystr"
  u_title :: "pystr \<Rightarrow> pystr"

text \<open>
  Tables that know no letter from 128 on: on an ASCII text no table is consulted, and
  the model is run with these where a concrete table is needed.
\<close>

definition ascii_tables :: unicode where
  "ascii_tables =
     \<lparr>u_isalnum = (\<lambda>c. False), u_upper = (\<lambda>s. s), u_lower = (\<lambda>s. s),
      u_capitalize = (\<lambda>s. s), u_title = (\<lambda>s. s)\<rparr>"

definition is_ascii :: "pystr \<Rightarrow> bool" where
  "is_ascii s = list_all (\<lambda>c. c < 128) s"

text \<open>
  White space as \<open>str.strip\<close>, \<open>str.split\<close> and the class \<open>\s\<close> of \<open>re\<close> (on a \<open>str\<close>
  pattern) see it: the code points for which \<open>str.isspace\<close> holds.
\<close>

definition is_space :: "nat \<Rightarrow> bool" where
  "is_space c = (c \<in> set [9, 10, 11, 12, 13, 28, 29, 30, 31, 32, 133, 160, 5760,
     8192, 8193, 8194, 8195, 8196, 8197, 8198, 8199, 8200, 8201, 8202,
     8232, 8233, 8239, 8287, 12288])"

definition ascii_is_upper :: "nat \<Rightarrow> bool" where
  "ascii_is_upper c = (65 \<le> c \<and> c \<le> 90)"

definition ascii_is_lower :: "nat \<Rightarrow> bool" where
  "ascii_is_lower c = (97 \<le> c \<and> c \<le> 122)"

definition ascii_is_digit :: "nat \<Rightarrow> bool" where
  "ascii_is_digit c = (48 \<le> c \<and> c \<le> 57)"

definition ascii_upper :: "nat \<Rightarrow> nat" where
  "ascii_upper c = (if ascii_is_lower c then c - 32 else c)"

definition ascii_lower :: "nat \<Rightarrow> nat" where
  "ascii_lower c = (if ascii_is_upper c then c + 32 else c)"

text \<open>The class \<open>\w\<close>: alphanumeric or the underscore.\<close>

definition is_word :: "unicode \<Rightarrow> nat \<Rightarrow> bool" where
  "is_word U c =
     (if c < 128 then ascii_is_upper c \<or> ascii_is_lower c \<or> ascii_is_digit c \<or> c = 95
      else u_isalnum U c)"

definition str_upper :: "unicode \<Rightarrow> pystr \<Rightarrow> pystr" where
  "str_upper U s = (if is_ascii s then map ascii_upper s else u_upper U s)"

definition str_lower :: "unicode \<Rightarrow> pystr \<Rightarrow> pystr" where
  "str_lower U s = (if is_ascii s then map ascii_lower s else u_lower U s)"

text \<open>\<open>str.capitalize\<close>: the first character upper case, the rest lower case.\<close>

definition str_capitalize :: "unicode \<Rightarrow> pystr \<Rightarrow> pystr" where
  "str_capitalize U s =
     (if is_ascii s then
        (case s of [] \<Rightarrow> [] | c # cs \<Rightarrow> ascii_upper c # map ascii_lower cs)
      else u_capitalize U s)"

text \<open>
  \<open>str.title\<close>: a cased character is made upper case when the character before it is
  not cased (or there is none), lower case when it is; the flag is whether the previous
  character is a letter.
\<close>

fun ascii_title :: "bool \<Rightarrow> pystr \<Rightarrow> pystr" where
  "ascii_title prev [] = []"
| "ascii_title prev (c # cs) =
     (if prev then ascii_lower c else ascii_upper c)
       # ascii_title (ascii_is_upper c \<or> ascii_is_lower c) cs"

definition str_title :: "unicode \<Rightarrow> pystr \<Rightarrow> pystr" where
  "str_title U s = (if is_ascii s then ascii_title False s else u_title U s)"

text \<open>\<open>s.replace(a, b)\<close> for one-character strings \<open>a\<close> and \<open>b\<close>.\<close>

definition replace_char :: "nat \<Rightarrow> nat \<Rightarrow> pystr \<Rightarrow> pystr" where
  "replace_char a b s = map (\<lambda>c. if c = a then b else c) s"

text \<open>\<open>s.replace(a, '')\<close> for a one-character string \<open>a\<close>.\<close>

definition remove_char :: "nat \<Rightarrow> pystr \<Rightarrow> pystr" where
  "remove_char a s = filter (\<lambda>c. c \<noteq> a) s"

text \<open>\<open>s.strip()\<close> and \<open>s.rstrip('.')\<close>.\<close>

definition str_strip :: "pystr \<Rightarrow> pystr" where
  "str_strip s = rev (dropWhile is_space (rev (dropWhile is_space s)))"

definition rstrip_char :: "nat \<Rightarrow> pystr \<Rightarrow> pystr" where
  "rstrip_char a s = rev (dropWhile (\<lambda>c. c = a) (rev s))"

text \<open>
  \<open>re.sub(r'\s+', ' ', s)\<close>: every maximal run of white space becomes one space. A white
  space character followed by another one is dropped, the last of a run becomes the space.
\<close>

fun collapse_ws :: "pystr \<Rightarrow> pystr" where
  "collapse_ws [] = []"
| "collapse_ws [c] = [if is_space c then 32 else c]"
| "collapse_ws (c # d # cs) =
     (if is_space c then
        (if is_space d then collapse_ws (d # cs) else 32 # collapse_ws (d # cs))
      else c # collapse_ws (d # cs))"

text \<open>
  \<open>s.split()\<close>: the maximal runs of characters that are not white space. \<open>cur\<close> is the
  word being read.
\<close>

fun split_ws :: "pystr \<Rightarrow> pystr \<Rightarrow> pystr list" where
  "split_ws cur [] = (if cur = [] then [] else [cur])"
| "split_ws cur (c # cs) =
     (if is_space c then (if cur = [] then split_ws [] cs else cur # split_ws [] cs)
      else split_ws (cur @ [c]) cs)"

definition str_split :: "pystr \<Rightarrow> pystr list" where
  "str_split s = split_ws [] s"

text \<open>
  \<open>s.split(d)\<close> for a one-character separator: the pieces between the separators, empty
  pieces kept, so the result is never empty. \<open>cur\<close> is the piece being read.
\<close>

fun split_on :: "nat \<Rightarrow> pystr \<Rightarrow> pystr \<Rightarrow> pystr list" where
  "split_on d cur [] = [cur]"
| "split_on d cur (c # cs) =
     (if c = d then cur # split_on d [] cs else split_on d (cur @ [c]) cs)"

text \<open>\<open>sep.join(ws)\<close>.\<close>

fun join :: "pystr \<Rightarrow> pystr list \<Rightarrow> pystr" where
  "join sep [] = []"
| "join sep [w] = w"
| "join sep (w # v # ws) = w @ sep @ join sep (v # ws)"

section \<open>\<open>TitleGenerator.clean_content\<close>\<close>

text \<open>
  The characters the second substitution keeps: \<open>[^\w\s.,!?-]\<close> is deleted.
\<close>

definition keep_char :: "unicode \<Rightarrow> nat \<Rightarrow> bool" where
  "keep_char U c = (is_word U c \<or> is_space c \<or> c \<in> set (lit ''.,!?-''))"

text \<open>
  Lines 46 to 53: the curly quotes (U+2019, U+2018, U+201C, U+201D) become straight
  ones, the string is stripped, white space is collapsed, and the characters outside
  the class are deleted.
\<close>

definition normalise :: "unicode \<Rightarrow> pystr \<Rightarrow> pystr" where
  "normalise U content =
     filter (keep_char U)
       (collapse_ws (str_strip
         (replace_char 8221 34 (replace_char 8220 34
           (replace_char 8216 39 (replace_char 8217 39 content))))))"

text \<open>
  The loop of lines 60 to 63 over the sentences, \<open>acc\<close> being the variable \<open>content\<close>:
  it stops (\<open>break\<close>) at the first sentence that would take the text past 800 characters,
  and the test is made before the full stop is put back.
\<close>

fun reassemble :: "pystr \<Rightarrow> pystr list \<Rightarrow> pystr" where
  "reassemble acc [] = acc"
| "reassemble acc (sentence # rest) =
     (if length (acc @ sentence) > 800 then acc
      else reassemble (acc @ sentence @ [46]) rest)"

text \<open>
  \<open>clean_content\<close>. Line 59 assigns the empty string to \<open>content\<close> and the loop builds
  its result there, so the \<open>content[:800]\<close> of line 66 slices the loop's result
  (\<open>rebuilt\<close>), not the cleaned text.
\<close>

definition clean_content :: "unicode \<Rightarrow> pystr \<Rightarrow> pystr" where
  "clean_content U content =
     (if content = [] then []
      else
        (let cleaned = normalise U content in
         if length cleaned > 800 then
           (let sentences = split_on 46 [] cleaned;
                rebuilt = reassemble [] sentences
            in if rebuilt = [] then take 800 rebuilt @ lit ''...'' else rebuilt)
         else cleaned))"

section \<open>\<open>TitleGenerator._clean_title\<close>\<close>

definition always_caps :: "pystr list" where
  "always_caps = map lit [''AI'', ''API'', ''ML'', ''NLP'', ''IoT'', ''SaaS'', ''CEO'',
     ''CTO'', ''IT'', ''UI'', ''UX'', ''SEO'', ''ROI'']"

definition articles_prepositions :: "pystr list" where
  "articles_prepositions = map lit [''a'', ''an'', ''the'', ''and'', ''or'', ''but'',
     ''in'', ''on'', ''at'', ''to'', ''for'', ''of'', ''with'', ''by'']"

text \<open>
  The body of the loop of lines 160 to 173 for one word; \<open>first\<close> is the test \<open>i == 0\<close>.
\<close>

definition clean_word :: "unicode \<Rightarrow> bool \<Rightarrow> pystr \<Rightarrow> pystr" where
  "clean_word U first word =
     (let word_upper = str_upper U word;
          word_lower = str_lower U word
      in if word_upper \<in> set always_caps then word_upper
         else if first then str_capitalize U word
         else if word_lower \<in> set articles_prepositions then word_lower
         else if length word > 3 then str_capitalize U word
         else word_lower)"

fun clean_words :: "unicode \<Rightarrow> nat \<Rightarrow> pystr list \<Rightarrow> pystr list" where
  "clean_words U i [] = []"
| "clean_words U i (word # rest) = clean_word U (i = 0) word # clean_words U (Suc i) rest"

text \<open>
  \<open>_clean_title\<close>. The double quote (34) is deleted; the second \<open>replace\<close> of line 142
  maps the apostrophe (39) to itself; the backtick (96) becomes an apostrophe.
\<close>

definition clean_title :: "unicode \<Rightarrow> pystr \<Rightarrow> pystr" where
  "clean_title U title0 =
     (if title0 = [] then []
      else
        (let t1 = replace_char 96 39 (replace_char 39 39 (remove_char 34 title0));
             t2 = collapse_ws (str_strip t1);
             t3 = rstrip_char 46 t2;
             words = str_split t3
         in if words = [] then [] else join [32] (clean_words U 0 words)))"

section \<open>Candidates\<close>

text \<open>
  A candidate is the dictionary with the keys \<open>title\<close>, \<open>confidence\<close> and \<open>method\<close>; the
  four values of \<open>method\<close> are the strings \<open>ai\<close>, \<open>rule_based\<close>, \<open>smart_fallback\<close> and
  \<open>basic_fallback\<close>.

  Python computes the confidences in binary floating point, and a confidence of the model
  is a rational number. For the literals \<open>0.6\<close> and \<open>0.4\<close> and for the results of
  \<open>round(_, 2)\<close> it is the decimal: the value in Python is the float nearest to it, and
  between such values order and equality are those of the decimals. The rule-based tier
  does not round its confidence: there the model computes the float itself, every
  operation rounded to a double (\<open>round_to_double\<close> below), and the confidence is the exact
  value of that double.
\<close>

datatype gen_method = AI | RuleBased | SmartFallback | BasicFallback

record candidate =
  title :: pystr
  confidence :: rat
  method_name :: gen_method

text \<open>\<open>round(x, 2)\<close>: to the nearest hundredth, a tie to the even one.\<close>

definition round_half_even :: "rat \<Rightarrow> int" where
  "round_half_even x =
     (let f = \<lfloor>x\<rfloor>; d = x - of_int f
      in if d < 1 / 2 then f else if 1 / 2 < d then f + 1 else if even f then f else f + 1)"

definition round2 :: "rat \<Rightarrow> rat" where
  "round2 x = of_int (round_half_even (x * 100)) / 100"

text \<open>
  A Python float is an IEEE 754 double: 53 significant bits, every operation rounded to
  the nearest double, a tie to the one with the even significand. \<open>ilog2 x\<close> is the binary
  exponent of a positive \<open>x\<close>, the \<open>e\<close> with \<open>2^e \<le> x < 2^(e+1)\<close>: for \<open>x \<ge> 1\<close> the number of
  halvings that bring it below 2, for \<open>x < 1\<close> minus the number of doublings that bring it
  to 1 or above. \<open>round_to_double x\<close> rounds \<open>x\<close> to a multiple of \<open>2^(e-52)\<close>. The range of
  the exponent is not modelled: the values rounded in the program are \<open>0.7\<close>, \<open>0.1\<close>, an index
  into a list and their product and difference, none of which overflows or is subnormal.
\<close>

function halvings :: "rat \<Rightarrow> nat" where
  "halvings x = (if x < 2 then 0 else Suc (halvings (x / 2)))"
  by pat_completeness auto
termination
proof (relation "measure (\<lambda>x. nat \<lfloor>x\<rfloor>)")
  show "wf (measure (\<lambda>x::rat. nat \<lfloor>x\<rfloor>))" by simp
next
  fix x :: rat
  assume "\<not> x < 2"
  then have x: "2 \<le> x" by simp
  then have "x / 2 \<le> x - 1" by simp
  then have "\<lfloor>x / 2\<rfloor> \<le> \<lfloor>x - 1\<rfloor>" by (rule floor_mono)
  then have "\<lfloor>x / 2\<rfloor> < \<lfloor>x\<rfloor>" by simp
  moreover have "0 < \<lfloor>x\<rfloor>" using x by simp
  ultimately show "(x / 2, x) \<in> measure (\<lambda>x. nat \<lfloor>x\<rfloor>)" by simp
qed

declare halvings.simps [simp del]

function doublings :: "rat \<Rightarrow> nat" where
  "doublings x = (if x \<le> 0 \<or> 1 \<le> x then 0 else Suc (doublings (2 * x)))"
  by pat_completeness auto
termination
proof (relation "measure (\<lambda>x. nat \<lceil>1 / x\<rceil>)")
  show "wf (measure (\<lambda>x::rat. nat \<lceil>1 / x\<rceil>))" by simp
next
  fix x :: rat
  assume "\<not> (x \<le> 0 \<or> 1 \<le> x)"
  then have x: "0 < x" "x < 1" by simp_all
  define y where "y = 1 / x"
  have y: "1 < y" using x by (simp add: y_def)
  then have c: "2 \<le> \<lceil>y\<rceil>" by (simp add: le_ceiling_iff)
  then have "(of_int 2 :: rat) \<le> of_int \<lceil>y\<rceil>" by (simp only: of_int_le_iff)
  then have c2: "(2::rat) \<le> of_int \<lceil>y\<rceil>" by (simp only: of_int_numeral)
  have "y / 2 \<le> of_int \<lceil>y\<rceil> - 1"
    using le_of_int_ceiling [of y] c2 by linarith
  then have "y / 2 \<le> of_int (\<lceil>y\<rceil> - 1)" by simp
  then have lt: "\<lceil>y / 2\<rceil> \<le> \<lceil>y\<rceil> - 1" by (simp only: ceiling_le_iff)
  have "1 / (2 * x) = y / 2" unfolding y_def by (simp add: field_simps)
  then have "\<lceil>1 / (2 * x)\<rceil> = \<lceil>y / 2\<rceil>" by (rule arg_cong)
  moreover have "\<lceil>1 / x\<rceil> = \<lceil>y\<rceil>" by (simp add: y_def)
  ultimately have "nat \<lceil>1 / (2 * x)\<rceil> < nat \<lceil>1 / x\<rceil>" using lt c by linarith
  then show "(2 * x, x) \<in> measure (\<lambda>x. nat \<lceil>1 / x\<rceil>)" by (simp only: in_measure)
qed

declare doublings.simps [simp del]

definition ilog2 :: "rat \<Rightarrow> int" where
  "ilog2 x = (if 1 \<le> x then int (halvings x) else - int (doublings x))"

definition round_to_double :: "rat \<Rightarrow> rat" where
  "round_to_double x =
     (if x = 0 then 0
      else (let q = 2 powi (ilog2 \<bar>x\<bar> - 52) in of_int (round_half_even (x / q)) * q))"

text \<open>The decimal digits of a number, for \<open>f"{index + 1}"\<close>.\<close>

fun digits :: "nat \<Rightarrow> pystr" where
  "digits n = (if n < 10 then [48 + n] else digits (n div 10) @ [48 + n mod 10])"

declare digits.simps [simp del]

section \<open>\<open>TitleGenerator._rule_based_titles\<close>\<close>

text \<open>
  Lines 182 to 186: the two-word windows \<open>words[i:i+2]\<close> for \<open>i\<close> in
  \<open>range(len(words) - 1)\<close>, joined, in title case, kept when longer than 6 characters.
\<close>

fun key_phrases :: "unicode \<Rightarrow> pystr list \<Rightarrow> pystr list" where
  "key_phrases U (w # v # ws) =
     (let phrase = str_title U (join [32] [w, v])
      in (if length phrase > 6 then [phrase] else []) @ key_phrases U (v # ws))"
| "key_phrases U ws = []"

text \<open>
  A template has one placeholder \<open>{}\<close>: it is the pair of the text before it and the text
  after it, and \<open>template.format(x)\<close> puts \<open>x\<close> between them.
\<close>

type_synonym template = "pystr \<times> pystr"

definition templates :: "template list" where
  "templates =
     [(lit ''Understanding '', []),
      (lit ''A Complete Guide to '', []),
      (lit ''Everything You Need to Know About '', []),
      (lit ''The Future of '', []),
      (lit ''How to Master '', []),
      (lit ''The Ultimate '', lit '' Guide''),
      (lit ''Exploring '', []),
      (lit ''The Power of '', []),
      (lit ''Why '', lit '' Matters''),
      (lit ''Getting Started with '', [])]"

definition format_template :: "template \<Rightarrow> pystr \<Rightarrow> pystr" where
  "format_template t x = fst t @ x @ snd t"

text \<open>
  Line 213, \<open>0.7 - (i * 0.1)\<close>, in floating point: the two literals are the doubles nearest
  to the decimals, the integer \<open>i\<close> is converted to a double, and the product and the
  difference are rounded. The result is not rounded to two decimals and has no floor.
\<close>

definition rule_confidence :: "nat \<Rightarrow> rat" where
  "rule_confidence i =
     round_to_double (round_to_double (7 / 10)
       - round_to_double (round_to_double (of_nat i) * round_to_double (1 / 10)))"

definition rule_candidate :: "pystr list \<Rightarrow> nat \<Rightarrow> candidate" where
  "rule_candidate kps i =
     \<lparr>title = format_template (templates ! (i mod length templates)) (kps ! i),
      confidence = rule_confidence i,
      method_name = RuleBased\<rparr>"

text \<open>
  The loop of lines 205 to 215: \<open>i\<close> is the loop variable, \<open>k\<close> the number of iterations
  left, \<open>titles\<close> and \<open>used_phrases\<close> the two variables it updates. \<open>kps ! i\<close> is read only
  under the test \<open>i < len(key_phrases)\<close>, as in the source.
\<close>

fun rule_loop :: "pystr list \<Rightarrow> nat \<Rightarrow> nat \<Rightarrow> candidate list \<Rightarrow> pystr set \<Rightarrow> candidate list" where
  "rule_loop kps i 0 titles used_phrases = titles"
| "rule_loop kps i (Suc k) titles used_phrases =
     (if i < length kps \<and> kps ! i \<notin> used_phrases then
        rule_loop kps (Suc i) k (titles @ [rule_candidate kps i]) (insert (kps ! i) used_phrases)
      else rule_loop kps (Suc i) k titles used_phrases)"

text \<open>\<open>range(n)\<close> of a negative \<open>n\<close> is empty: the loop runs \<open>nat n\<close> times.\<close>

definition rule_based_titles :: "unicode \<Rightarrow> pystr \<Rightarrow> int \<Rightarrow> candidate list" where
  "rule_based_titles U content num_titles =
     (let kps = key_phrases U (str_split content)
      in rule_loop kps 0 (nat (min num_titles (int (length kps)))) [] {})"

section \<open>\<open>TitleGenerator._create_smart_fallback_title\<close>\<close>

definition smart_stopwords :: "pystr list" where
  "smart_stopwords = map lit [''this'', ''that'', ''with'', ''have'', ''been'', ''will'',
     ''from'', ''they'', ''were'', ''said'', ''each'', ''which'', ''their'', ''would'',
     ''there'', ''could'', ''other'']"

definition important_words :: "unicode \<Rightarrow> pystr \<Rightarrow> pystr list" where
  "important_words U content =
     map (str_title U)
       (filter (\<lambda>word. length word > 4 \<and> str_lower U word \<notin> set smart_stopwords)
         (take 20 (str_split content)))"

definition fallback_patterns :: "pystr list \<Rightarrow> pystr list" where
  "fallback_patterns important =
     map (\<lambda>p. p @ join [32] (take 2 important))
       [lit ''Insights on '', lit ''Understanding '', lit ''A Deep Dive into '',
        lit ''The Impact of '', lit ''Exploring '']"

definition create_smart_fallback_title :: "unicode \<Rightarrow> pystr \<Rightarrow> nat \<Rightarrow> candidate" where
  "create_smart_fallback_title U content index =
     (let important = important_words U content;
          patterns = fallback_patterns important
      in \<lparr>title = (if important \<noteq> [] then patterns ! (index mod length patterns)
                   else lit ''Blog Post #'' @ digits (index + 1)),
          confidence = 6 / 10,
          method_name = SmartFallback\<rparr>)"

section \<open>\<open>TitleGenerator._fallback_titles\<close>\<close>

definition basic_titles :: "pystr list" where
  "basic_titles = map lit [''New Blog Post'', ''Latest Article'', ''Fresh Content'',
     ''Recent Update'', ''New Insights'']"

definition basic_candidate :: "nat \<Rightarrow> candidate" where
  "basic_candidate i =
     \<lparr>title = basic_titles ! (i mod length basic_titles)
        @ (if i \<ge> length basic_titles then lit '' #'' @ digits (i + 1) else []),
      confidence = 4 / 10,
      method_name = BasicFallback\<rparr>"

text \<open>The loop over \<open>range(num_titles)\<close> appends one candidate per index; \<open>content\<close> is not read.\<close>

definition fallback_titles :: "pystr \<Rightarrow> int \<Rightarrow> candidate list" where
  "fallback_titles content num_titles = map basic_candidate [0 ..< nat num_titles]"

section \<open>\<open>TitleGenerator.generate_titles\<close>\<close>

text \<open>
  The model handle \<open>self.summarizer\<close> is \<open>None\<close> or a pipeline of the \<open>transformers\<close>
  library, which samples: one call either raises or returns a list of results, of which
  the source reads \<open>result[0]['summary_text']\<close>. A summarizer is a function of the attempt
  \<open>i\<close> (which fixes the temperature \<open>0.9 + 0.1 * i\<close> and stands for the state of the
  sampler at that call) and of the prompt; \<open>Returns\<close> carries the \<open>summary_text\<close> of every
  result, and \<open>Raises\<close> is any exception of the attempt, a result without that key included.
\<close>

datatype outcome = Raises | Returns "pystr list"

type_synonym summarizer = "nat \<Rightarrow> pystr \<Rightarrow> outcome"

text \<open>Lines 111 and 114: the confidence of the candidate of attempt \<open>i\<close>.\<close>

definition ai_confidence :: "nat \<Rightarrow> rat" where
  "ai_confidence i = round2 (max (9 / 10 - of_nat i * (1 / 10)) (6 / 10))"

text \<open>
  The loop of lines 86 to 120: \<open>i\<close> is the loop variable, \<open>k\<close> the number of iterations
  left. An attempt that raises is skipped (lines 118 to 120), and so is an empty result.
\<close>

fun ai_loop :: "unicode \<Rightarrow> summarizer \<Rightarrow> pystr \<Rightarrow> nat \<Rightarrow> nat \<Rightarrow> candidate list \<Rightarrow> candidate list" where
  "ai_loop U summ cleaned_content i 0 titles = titles"
| "ai_loop U summ cleaned_content i (Suc k) titles =
     ai_loop U summ cleaned_content (Suc i) k
       (case summ i (lit ''headline: '' @ cleaned_content) of
          Raises \<Rightarrow> titles
        | Returns [] \<Rightarrow> titles
        | Returns (summary_text # others) \<Rightarrow>
            (let t = clean_title U (str_strip summary_text)
             in if t \<noteq> [] \<and> length (str_split t) \<ge> 3 \<and> t \<notin> set (map title titles)
                then titles @ [\<lparr>title = t, confidence = ai_confidence i, method_name = AI\<rparr>]
                else titles))"

text \<open>
  Line 125 tests \<open>fallback not in [t['title'] for t in titles]\<close>, where \<open>fallback\<close> is the
  dictionary that \<open>_create_smart_fallback_title\<close> returns and the list holds strings.
  \<open>pyval\<close> is the type of the values this test compares: a string and a dictionary are
  never equal.
\<close>

datatype pyval = VStr pystr | VDict candidate

text \<open>The loop of lines 123 to 128; its \<open>else\<close> branch is the \<open>break\<close>.\<close>

function top_up :: "unicode \<Rightarrow> pystr \<Rightarrow> int \<Rightarrow> candidate list \<Rightarrow> candidate list" where
  "top_up U cleaned_content num_titles titles =
     (if int (length titles) < num_titles then
        (let fallback = create_smart_fallback_title U cleaned_content (length titles)
         in if VDict fallback \<notin> set (map (\<lambda>t. VStr (title t)) titles)
            then top_up U cleaned_content num_titles (titles @ [fallback])
            else titles)
      else titles)"
  by pat_completeness auto
termination
  by (relation "measure (\<lambda>(U, c, n, ts). nat (n - int (length ts)))") auto

declare top_up.simps [simp del]

text \<open>The slice \<open>xs[:n]\<close>; a negative \<open>n\<close> counts from the end.\<close>

definition slice_to :: "int \<Rightarrow> 'a list \<Rightarrow> 'a list" where
  "slice_to n xs = (if 0 \<le> n then take (nat n) xs else take (length xs - nat (- n)) xs)"

text \<open>
  \<open>generate_titles\<close>, on a string and an integer. No operation of the body outside the
  inner \<open>try\<close> raises on such arguments, so the handler of lines 132 to 134 (which
  returns \<open>_fallback_titles(content, num_titles)\<close>) is not entered and has no branch here.
\<close>

definition generate_titles :: "unicode \<Rightarrow> summarizer option \<Rightarrow> pystr \<Rightarrow> int \<Rightarrow> candidate list" where
  "generate_titles U summarizer content num_titles =
     (let cleaned_content = clean_content U content
      in if length (str_split cleaned_content) < 10 then
           fallback_titles cleaned_content num_titles
         else
           (case summarizer of
              None \<Rightarrow> rule_based_titles U cleaned_content num_titles
            | Some summ \<Rightarrow>
                (let titles = ai_loop U summ cleaned_content 0 (nat (min num_titles 5)) [];
                     titles' = top_up U cleaned_content num_titles titles
                 in slice_to num_titles titles')))"

section \<open>\<open>SuggestTitlesView.post\<close>\<close>

text \<open>
  \<open>request.data\<close> is a dictionary from strings to parsed JSON values. \<open>JFloat\<close> carries the
  exact value of a finite float, \<open>JOther\<close> is a list or an object.
\<close>

datatype json = JNull | JBool bool | JInt int | JFloat rat | JStr pystr | JOther

type_synonym request_data = "pystr \<Rightarrow> json option"

text \<open>\<open>data.get(key, dflt)\<close>.\<close>

definition dict_get :: "request_data \<Rightarrow> pystr \<Rightarrow> json \<Rightarrow> json" where
  "dict_get data key dflt = (case data key of None \<Rightarrow> dflt | Some v \<Rightarrow> v)"

text \<open>
  \<open>int(v)\<close>, \<open>None\<close> when it raises (\<open>TypeError\<close> or \<open>ValueError\<close>). A float is truncated
  towards zero, a Boolean is 0 or 1. How the interpreter reads an integer from a string
  is the parameter \<open>int_of_str\<close> (\<open>None\<close>: \<open>ValueError\<close>).
\<close>

definition py_int :: "(pystr \<Rightarrow> int option) \<Rightarrow> json \<Rightarrow> int option" where
  "py_int int_of_str v =
     (case v of
        JInt n \<Rightarrow> Some n
      | JBool b \<Rightarrow> Some (if b then 1 else 0)
      | JFloat q \<Rightarrow> Some (if 0 \<le> q then \<lfloor>q\<rfloor> else \<lceil>q\<rceil>)
      | JStr s \<Rightarrow> int_of_str s
      | JNull \<Rightarrow> None
      | JOther \<Rightarrow> None)"

text \<open>
  The responses: the status and, of the body, the suggestions of a success and the
  message of a failure. The field \<open>processing_time\<close> is wall-clock time and is left out.
\<close>

datatype response =
  Response200 "candidate list"
| Response400 pystr
| Response500

text \<open>
  Lines 21 to 41: either a response that ends the request (\<open>Inl\<close>), or (\<open>Inr\<close>) the two
  arguments of the call of \<open>generate_titles\<close> in line 45. An exception (\<open>strip\<close> of a
  value that is not a string, \<open>int\<close> of a value it refuses) goes to the handler of lines
  59 to 65. Line 22 is evaluated before the content is validated.
\<close>

definition post_args :: "(pystr \<Rightarrow> int option) \<Rightarrow> request_data \<Rightarrow> response + (pystr \<times> int)" where
  "post_args int_of_str data =
     (case dict_get data (lit ''content'') (JStr []) of
        JStr raw \<Rightarrow>
          (let content = str_strip raw in
           case py_int int_of_str (dict_get data (lit ''max_suggestions'') (JInt 3)) of
             None \<Rightarrow> Inl Response500
           | Some n \<Rightarrow>
               (let max_suggestions = min n 5 in
                if content = [] then Inl (Response400 (lit ''Content is required''))
                else if length content < 20 then
                  Inl (Response400 (lit ''Content too short (minimum 20 characters)''))
                else if length content > 5000 then
                  Inl (Response400 (lit ''Content too long (maximum 5000 characters)''))
                else Inr (content, max_suggestions)))
      | other \<Rightarrow> Inl Response500)"

definition post :: "unicode \<Rightarrow> (pystr \<Rightarrow> int option) \<Rightarrow> summarizer option \<Rightarrow> request_data \<Rightarrow> response" where
  "post U int_of_str summarizer data =
     (case post_args int_of_str data of
        Inl r \<Rightarrow> r
      | Inr (content, max_suggestions) \<Rightarrow>
          Response200 (generate_titles U summarizer content max_suggestions))"

section \<open>Predicates used in the proofs\<close>

text \<open>
  The characters of the words of a cleaned title of an ASCII text: below 128, not white
  space, and neither the double quote nor the backtick, which \<open>_clean_title\<close> removes.
  A word of a title is a non-empty string of such characters.
\<close>

definition title_char :: "nat \<Rightarrow> bool" where
  "title_char c = (c < 128 \<and> \<not> is_space c \<and> c \<noteq> 34 \<and> c \<noteq> 96)"

definition title_word :: "pystr \<Rightarrow> bool" where
  "title_word w = (w \<noteq> [] \<and> list_all title_char w)"

section \<open>Properties of \<open>clean_content\<close>\<close>

lemma reassemble_length:
  "length acc \<le> 801 \<Longrightarrow> length (reassemble acc ss) \<le> 801"
  by (induction ss arbitrary: acc) auto

lemma replace_char_absent: "a \<notin> set s \<Longrightarrow> replace_char a b s = s"
  by (induction s) (auto simp: replace_char_def)

lemma collapse_ws_no_space: "\<forall>c\<in>set s. \<not> is_space c \<Longrightarrow> collapse_ws s = s"
  by (induction s rule: collapse_ws.induct) auto

lemma dropWhile_none: "\<forall>c\<in>set s. \<not> P c \<Longrightarrow> dropWhile P s = s"
  by (cases s) auto

lemma str_strip_no_space: "\<forall>c\<in>set s. \<not> is_space c \<Longrightarrow> str_strip s = s"
  by (simp add: str_strip_def dropWhile_none)

text \<open>
  A text of characters that the class keeps, without white space and without curly
  quotes, is its own cleaned form.
\<close>

lemma normalise_plain:
  assumes "\<forall>c\<in>set s. keep_char U c \<and> \<not> is_space c \<and> c < 8000"
  shows "normalise U s = s"
proof -
  have q: "a \<notin> set s" if "a \<ge> 8000" for a
    using assms that by auto
  have ns: "\<forall>c\<in>set s. \<not> is_space c"
    using assms by auto
  have k: "filter (keep_char U) s = s"
    using assms by (induction s) auto
  show ?thesis
    by (simp add: normalise_def replace_char_absent q str_strip_no_space ns
        collapse_ws_no_space k)
qed

lemma keep_plain:
  "keep_char U 97 \<and> \<not> is_space 97 \<and> (97::nat) < 8000"
  "keep_char U 98 \<and> \<not> is_space 98 \<and> (98::nat) < 8000"
  "keep_char U 46 \<and> \<not> is_space 46 \<and> (46::nat) < 8000"
  by (simp_all add: keep_char_def is_word_def is_space_def lit_def ascii_is_lower_def)

lemma split_on_no_sep:
  "d \<notin> set xs \<Longrightarrow> split_on d cur (xs @ ys) = split_on d (cur @ xs) ys"
  by (induction xs arbitrary: cur) auto

lemma split_on_nonempty: "split_on d cur s \<noteq> []"
  by (induction s arbitrary: cur) auto

text \<open>
  Whenever the cleaned text is longer than 800 characters and its first sentence alone
  is longer than 800 characters, the result is the three full stops and nothing else.
\<close>

lemma hard_truncation_lost:
  assumes "length (normalise U raw) > 800"
    and "length (hd (split_on 46 [] (normalise U raw))) > 800"
  shows "clean_content U raw = lit ''...''"
proof -
  have ne: "raw \<noteq> []"
    using assms(1) by (auto simp: normalise_def str_strip_def replace_char_def)
  obtain s ss where sp: "split_on 46 [] (normalise U raw) = s # ss"
    using split_on_nonempty [of 46 "[]" "normalise U raw"]
    by (cases "split_on 46 [] (normalise U raw)") auto
  with assms(2) have "length s > 800" by simp
  then have "reassemble [] (s # ss) = []" by simp
  with ne assms(1) sp show ?thesis
    by (simp add: clean_content_def Let_def)
qed

text \<open>
  Claim C1. For an input whose cleaned form is longer than 800 characters and whose first
  sentence alone exceeds 800 characters, the claim expects the first 800 characters of
  the cleaned text followed by \<open>...\<close>. On 801 letters \<open>a\<close> (cleaned form: the same 801
  letters, one sentence) the code returns \<open>...\<close> alone: line 66 slices the variable that
  line 59 has emptied.
\<close>

theorem clean_content_801_letters:
  "normalise U (replicate 801 97) = replicate 801 97
   \<and> split_on 46 [] (normalise U (replicate 801 97)) = [replicate 801 97]
   \<and> clean_content U (replicate 801 97) = lit ''...''
   \<and> clean_content U (replicate 801 97) \<noteq> take 800 (normalise U (replicate 801 97)) @ lit ''...''"
proof -
  have n: "normalise U (replicate 801 97) = replicate 801 97"
    by (rule normalise_plain) (auto simp: keep_plain)
  have s: "split_on 46 [] (replicate 801 97) = [replicate 801 97]"
    using split_on_no_sep [of 46 "replicate 801 97" "[]" "[]"] by simp
  have c: "clean_content U (replicate 801 97) = lit ''...''"
    using hard_truncation_lost [of U "replicate 801 97"] by (simp add: n s)
  have "length (clean_content U (replicate 801 97)) = 3"
    by (simp add: c lit_def)
  moreover have "length (take 800 (normalise U (replicate 801 97)) @ lit ''...'') = 803"
    by (simp add: n lit_def)
  ultimately have "clean_content U (replicate 801 97)
      \<noteq> take 800 (normalise U (replicate 801 97)) @ lit ''...''"
    by auto
  with n s c show ?thesis by simp
qed

text \<open>
  Claim C10. The result of \<open>clean_content\<close> never has more than 801 characters, and 801 is
  reached: on 800 letters \<open>a\<close> followed by \<open>.b\<close> the first sentence has exactly 800
  characters, passes the test of line 61, and gets its full stop back.
\<close>

theorem clean_content_length:
  "length (clean_content U raw) \<le> 801
   \<and> length (clean_content U (replicate 800 97 @ lit ''.b'')) = 801"
proof -
  let ?r = "replicate 800 97 @ [46, 98::nat]"
  have bound: "length (clean_content U raw) \<le> 801"
    using reassemble_length [of "[]" "split_on 46 [] (normalise U raw)"]
    by (simp add: clean_content_def Let_def lit_def)
  have n: "normalise U ?r = ?r"
    by (rule normalise_plain) (auto simp: keep_plain)
  have s: "split_on 46 [] ?r = [replicate 800 97, [98]]"
    using split_on_no_sep [of 46 "replicate 800 97" "[]" "[46, 98]"] by simp
  have "length (clean_content U ?r) = 801"
    by (simp add: clean_content_def Let_def n s)
  with bound show ?thesis by (simp add: lit_def)
qed

section \<open>Properties of \<open>_clean_title\<close>\<close>

lemma ascii_case_idem:
  "ascii_upper (ascii_upper c) = ascii_upper c"
  "ascii_upper (ascii_lower c) = ascii_upper c"
  "ascii_lower (ascii_upper c) = ascii_lower c"
  "ascii_lower (ascii_lower c) = ascii_lower c"
  by (auto simp: ascii_upper_def ascii_lower_def ascii_is_upper_def ascii_is_lower_def)

lemma is_space_letter: "65 \<le> c \<Longrightarrow> c \<le> 122 \<Longrightarrow> \<not> is_space c"
  by (simp add: is_space_def)

lemma title_char_case:
  assumes "title_char c"
  shows "title_char (ascii_upper c)" and "title_char (ascii_lower c)"
proof -
  show "title_char (ascii_upper c)"
  proof (cases "ascii_is_lower c")
    case True
    then have r: "65 \<le> c - 32" "c - 32 \<le> 90" by (auto simp: ascii_is_lower_def)
    then have "\<not> is_space (c - 32)" by (intro is_space_letter) auto
    with r True show ?thesis by (simp add: title_char_def ascii_upper_def)
  next
    case False
    with assms show ?thesis by (simp add: ascii_upper_def)
  qed
  show "title_char (ascii_lower c)"
  proof (cases "ascii_is_upper c")
    case True
    then have r: "97 \<le> c + 32" "c + 32 \<le> 122" by (auto simp: ascii_is_upper_def)
    then have "\<not> is_space (c + 32)" by (intro is_space_letter) auto
    with r True show ?thesis by (simp add: title_char_def ascii_lower_def)
  next
    case False
    with assms show ?thesis by (simp add: ascii_lower_def)
  qed
qed

lemma title_char_ascii: "list_all title_char w \<Longrightarrow> is_ascii w"
  by (induction w) (auto simp: is_ascii_def title_char_def)

lemma is_ascii_map:
  "is_ascii w \<Longrightarrow> is_ascii (map ascii_upper w)"
  "is_ascii w \<Longrightarrow> is_ascii (map ascii_lower w)"
  by (induction w) (auto simp: is_ascii_def ascii_upper_def ascii_lower_def
      ascii_is_upper_def ascii_is_lower_def)

lemma str_case_ascii:
  assumes "is_ascii w"
  shows "str_upper U w = map ascii_upper w"
    and "str_lower U w = map ascii_lower w"
    and "str_capitalize U w = (case w of [] \<Rightarrow> [] | c # cs \<Rightarrow> ascii_upper c # map ascii_lower cs)"
  using assms by (simp_all add: str_upper_def str_lower_def str_capitalize_def)

lemma is_ascii_str_case:
  assumes "is_ascii w"
  shows "is_ascii (str_upper U w)" and "is_ascii (str_lower U w)"
    and "is_ascii (str_capitalize U w)"
  using assms is_ascii_map [of w] is_ascii_map [of "tl w"]
  by (auto simp: str_case_ascii is_ascii_def ascii_upper_def ascii_lower_def
      ascii_is_upper_def ascii_is_lower_def split: list.splits)

lemma str_case_idem:
  assumes "is_ascii w"
  shows "str_upper U (str_upper U w) = str_upper U w"
    and "str_upper U (str_lower U w) = str_upper U w"
    and "str_upper U (str_capitalize U w) = str_upper U w"
    and "str_lower U (str_lower U w) = str_lower U w"
    and "str_lower U (str_capitalize U w) = str_lower U w"
    and "str_capitalize U (str_capitalize U w) = str_capitalize U w"
    and "length (str_upper U w) = length w"
    and "length (str_lower U w) = length w"
    and "length (str_capitalize U w) = length w"
  using assms is_ascii_str_case [OF assms, of U] is_ascii_map [of w]
  by (auto simp: str_case_ascii ascii_case_idem is_ascii_def split: list.splits)

lemma clean_word_idem:
  assumes "is_ascii w"
  shows "clean_word U f (clean_word U f w) = clean_word U f w"
  using assms by (simp add: clean_word_def Let_def str_case_idem)

lemma clean_word_length:
  "is_ascii w \<Longrightarrow> length (clean_word U f w) = length w"
  by (simp add: clean_word_def Let_def str_case_idem)

lemma clean_word_ascii:
  "is_ascii w \<Longrightarrow> is_ascii (clean_word U f w)"
  by (simp add: clean_word_def Let_def is_ascii_str_case)

lemma title_word_case:
  assumes "title_word w"
  shows "title_word (str_upper U w)" and "title_word (str_lower U w)"
    and "title_word (str_capitalize U w)"
proof -
  have a: "is_ascii w" using assms by (simp add: title_word_def title_char_ascii)
  have "list_all title_char (map ascii_upper w)" "list_all title_char (map ascii_lower w)"
    using assms by (auto simp: title_word_def list_all_iff title_char_case)
  moreover have "list_all title_char (map ascii_lower (tl w))"
    using assms by (cases w) (auto simp: title_word_def list_all_iff title_char_case)
  ultimately show "title_word (str_upper U w)" "title_word (str_lower U w)"
    "title_word (str_capitalize U w)"
    using assms a by (auto simp: str_case_ascii title_word_def title_char_case split: list.splits)
qed

lemma clean_word_title_word:
  "title_word w \<Longrightarrow> title_word (clean_word U f w)"
  by (simp add: clean_word_def Let_def title_word_case)

lemma clean_words_idem:
  "\<forall>w\<in>set ws. is_ascii w \<Longrightarrow> clean_words U i (clean_words U i ws) = clean_words U i ws"
  by (induction ws arbitrary: i) (auto simp: clean_word_idem)

lemma clean_words_lengths:
  "\<forall>w\<in>set ws. is_ascii w \<Longrightarrow> map length (clean_words U i ws) = map length ws"
  by (induction ws arbitrary: i) (auto simp: clean_word_length)

lemma clean_words_title_word:
  "\<forall>w\<in>set ws. title_word w \<Longrightarrow> \<forall>w\<in>set (clean_words U i ws). title_word w"
  by (induction ws arbitrary: i) (auto simp: clean_word_title_word)

lemma split_ws_nonspace_prefix:
  "\<forall>c\<in>set w. \<not> is_space c \<Longrightarrow> split_ws cur (w @ rest) = split_ws (cur @ w) rest"
  by (induction w arbitrary: cur) auto

lemma split_ws_join:
  "\<forall>w\<in>set ws. w \<noteq> [] \<and> (\<forall>c\<in>set w. \<not> is_space c) \<Longrightarrow> split_ws [] (join [32] ws) = ws"
proof (induction "[32::nat]" ws rule: join.induct)
  case 1
  then show ?case by simp
next
  case (2 w)
  then show ?case using split_ws_nonspace_prefix [of w "[]" "[]"] by simp
next
  case (3 w v ws)
  have "split_ws [] (w @ 32 # join [32] (v # ws)) = split_ws w (32 # join [32] (v # ws))"
    using 3 split_ws_nonspace_prefix [of w "[]" "32 # join [32] (v # ws)"] by simp
  also have "\<dots> = w # split_ws [] (join [32] (v # ws))"
    using 3 by (simp add: is_space_def)
  finally show ?case using 3 by simp
qed

lemma split_ws_subset:
  "w \<in> set (split_ws cur s) \<Longrightarrow> set w \<subseteq> set cur \<union> set s"
proof (induction s arbitrary: cur)
  case Nil
  then show ?case by (auto split: if_splits)
next
  case (Cons a s)
  show ?case
  proof (cases "is_space a")
    case True
    with Cons.prems have "w = cur \<or> w \<in> set (split_ws [] s)"
      by (auto split: if_splits)
    then show ?thesis using Cons.IH [of "[]"] by auto
  next
    case False
    with Cons.prems have "w \<in> set (split_ws (cur @ [a]) s)" by simp
    then show ?thesis using Cons.IH [of "cur @ [a]"] by auto
  qed
qed

lemma split_ws_word:
  "\<forall>c\<in>set cur. \<not> is_space c \<Longrightarrow> w \<in> set (split_ws cur s) \<Longrightarrow>
   w \<noteq> [] \<and> (\<forall>c\<in>set w. \<not> is_space c)"
proof (induction s arbitrary: cur)
  case Nil
  then show ?case by (auto split: if_splits)
next
  case (Cons a s)
  show ?case
  proof (cases "is_space a")
    case True
    with Cons.prems have "(w = cur \<and> cur \<noteq> []) \<or> w \<in> set (split_ws [] s)"
      by (auto split: if_splits)
    then show ?thesis using Cons.IH [of "[]"] Cons.prems(1) by auto
  next
    case False
    with Cons.prems have "w \<in> set (split_ws (cur @ [a]) s)" by simp
    moreover have "\<forall>c\<in>set (cur @ [a]). \<not> is_space c" using False Cons.prems(1) by auto
    ultimately show ?thesis using Cons.IH [of "cur @ [a]"] by blast
  qed
qed

lemma collapse_ws_nonspace_cons:
  "\<not> is_space c \<Longrightarrow> collapse_ws (c # xs) = c # collapse_ws xs"
  by (cases xs) auto

lemma collapse_ws_nonspace_prefix:
  "\<forall>c\<in>set w. \<not> is_space c \<Longrightarrow> collapse_ws (w @ rest) = w @ collapse_ws rest"
  by (induction w) (auto simp: collapse_ws_nonspace_cons)

lemma join_cons_hd:
  "v \<noteq> [] \<Longrightarrow> \<exists>xs. join sep (v # ws) = hd v # xs"
  by (cases ws; cases v) auto

lemma collapse_ws_join:
  "\<forall>w\<in>set ws. w \<noteq> [] \<and> (\<forall>c\<in>set w. \<not> is_space c) \<Longrightarrow>
   collapse_ws (join [32] ws) = join [32] ws"
proof (induction "[32::nat]" ws rule: join.induct)
  case 1
  then show ?case by simp
next
  case (2 w)
  then show ?case using collapse_ws_nonspace_prefix [of w "[]"] by simp
next
  case (3 w v ws)
  from 3 have v: "v \<noteq> []" "\<not> is_space (hd v)" by auto
  then obtain xs where xs: "join [32] (v # ws) = hd v # xs"
    using join_cons_hd by blast
  have "collapse_ws (32 # join [32] (v # ws)) = 32 # collapse_ws (join [32] (v # ws))"
    using v by (simp add: xs is_space_def)
  then show ?case
    using 3 collapse_ws_nonspace_prefix [of w "32 # join [32] (v # ws)"] by simp
qed

lemma set_join:
  "set (join sep ws) \<subseteq> \<Union> (set ` set ws) \<union> set sep"
  by (induction sep ws rule: join.induct) auto

lemma join_last:
  "ws \<noteq> [] \<Longrightarrow> last ws \<noteq> [] \<Longrightarrow> join sep ws \<noteq> [] \<and> last (join sep ws) = last (last ws)"
  by (induction sep ws rule: join.induct) auto

lemma join_hd:
  "ws \<noteq> [] \<Longrightarrow> hd ws \<noteq> [] \<Longrightarrow> join sep ws \<noteq> [] \<and> hd (join sep ws) = hd (hd ws)"
  by (induction sep ws rule: join.induct) auto

lemma dropWhile_hd: "xs = [] \<or> \<not> P (hd xs) \<Longrightarrow> dropWhile P xs = xs"
  by (cases xs) auto

lemma str_strip_ends:
  assumes "x = [] \<or> (\<not> is_space (hd x) \<and> \<not> is_space (last x))"
  shows "str_strip x = x"
proof -
  have 1: "dropWhile is_space x = x"
    using assms by (intro dropWhile_hd) auto
  have 2: "dropWhile is_space (rev x) = rev x"
    using assms by (intro dropWhile_hd) (auto simp: hd_rev)
  show ?thesis by (simp add: str_strip_def 1 2)
qed

lemma str_strip_join:
  assumes "\<forall>w\<in>set ws. w \<noteq> [] \<and> (\<forall>c\<in>set w. \<not> is_space c)"
  shows "str_strip (join [32] ws) = join [32] ws"
proof (cases ws)
  case Nil
  then show ?thesis by (simp add: str_strip_def)
next
  case (Cons a list)
  then have m: "hd ws \<in> set ws" "last ws \<in> set ws" by auto
  with assms have ne: "hd ws \<noteq> []" "last ws \<noteq> []" by blast+
  then have "hd (hd ws) \<in> set (hd ws)" "last (last ws) \<in> set (last ws)" by auto
  with assms m have sp: "\<not> is_space (hd (hd ws))" "\<not> is_space (last (last ws))" by blast+
  from Cons have "ws \<noteq> []" by simp
  then show ?thesis
    using join_hd [of ws "[32]"] join_last [of ws "[32]"] ne sp by (intro str_strip_ends) simp
qed

lemma rstrip_char_id: "x = [] \<or> last x \<noteq> a \<Longrightarrow> rstrip_char a x = x"
  by (cases x rule: rev_cases) (auto simp: rstrip_char_def)

lemma rstrip_char_shorter: "x \<noteq> [] \<Longrightarrow> last x = a \<Longrightarrow> length (rstrip_char a x) < length x"
proof (cases x rule: rev_cases)
  case Nil
  assume "x \<noteq> []" with Nil show ?thesis by simp
next
  case (snoc ys y)
  assume "last x = a"
  with snoc have "rstrip_char a x = rev (dropWhile (\<lambda>c. c = a) (rev ys))"
    by (simp add: rstrip_char_def)
  moreover have "length (dropWhile (\<lambda>c. c = a) (rev ys)) \<le> length ys"
    using length_dropWhile_le [of "\<lambda>c. c = a" "rev ys"] by simp
  ultimately show ?thesis using snoc by simp
qed

lemma set_rstrip_char: "set (rstrip_char a x) \<subseteq> set x"
  using set_dropWhileD [of _ "\<lambda>c. c = a" "rev x"] by (auto simp: rstrip_char_def)

lemma set_str_strip: "set (str_strip x) \<subseteq> set x"
  using set_dropWhileD [of _ is_space "rev (dropWhile is_space x)"] set_dropWhileD [of _ is_space x]
  by (auto simp: str_strip_def)

lemma set_collapse_ws: "set (collapse_ws x) \<subseteq> insert 32 (set x)"
  by (induction x rule: collapse_ws.induct) auto

lemma length_join_cons:
  "length (join sep (w # ws)) \<le> length w + length sep + length (join sep ws)"
  by (cases ws) auto

lemma length_join_split_ws:
  "length (join [32] (split_ws cur x)) \<le> length cur + length x"
proof (induction x arbitrary: cur)
  case Nil
  then show ?case by simp
next
  case (Cons c cs)
  show ?case
  proof (cases "is_space c")
    case True
    then show ?thesis
      using Cons [of "[]"] length_join_cons [of "[32]" cur "split_ws [] cs"] by auto
  next
    case False
    then show ?thesis using Cons [of "cur @ [c]"] by simp
  qed
qed

lemma length_join_lengths:
  "map length ws = map length vs \<Longrightarrow> length (join sep ws) = length (join sep vs)"
proof (induction sep ws arbitrary: vs rule: join.induct)
  case (1 sep)
  then show ?case by simp
next
  case (2 sep w)
  then show ?case by (cases vs) auto
next
  case (3 sep w v ws)
  then obtain w' v' vs' where "vs = w' # v' # vs'" by (cases vs; cases "tl vs") auto
  with 3 show ?case by auto
qed

lemma quotes_absent:
  "34 \<notin> set x \<Longrightarrow> 96 \<notin> set x \<Longrightarrow>
   replace_char 96 39 (replace_char 39 39 (remove_char 34 x)) = x"
  by (induction x) (auto simp: replace_char_def remove_char_def)

lemma set_quotes:
  "set (replace_char 96 39 (replace_char 39 39 (remove_char 34 x))) \<subseteq> insert 39 (set x - {34, 96})"
  by (induction x) (auto simp: replace_char_def remove_char_def)

lemma clean_title_unfold:
  "clean_title U s = join [32] (clean_words U 0 (str_split (rstrip_char 46
     (collapse_ws (str_strip (replace_char 96 39 (replace_char 39 39 (remove_char 34 s))))))))"
  by (cases "s = []")
    (simp_all add: clean_title_def Let_def replace_char_def remove_char_def str_strip_def
      rstrip_char_def str_split_def)

lemma title_word_no_space:
  "title_word w \<Longrightarrow> w \<noteq> [] \<and> (\<forall>c\<in>set w. \<not> is_space c)"
  by (auto simp: title_word_def list_all_iff title_char_def)

lemma title_word_is_ascii: "title_word w \<Longrightarrow> is_ascii w"
  by (simp add: title_word_def title_char_ascii)

lemma split_title_words:
  assumes "\<forall>c\<in>set x. c < 128 \<and> c \<noteq> 34 \<and> c \<noteq> 96"
  shows "\<forall>w\<in>set (str_split x). title_word w"
proof
  fix w assume w: "w \<in> set (str_split x)"
  then have "w \<noteq> [] \<and> (\<forall>c\<in>set w. \<not> is_space c)"
    using split_ws_word [of "[]" w x] by (simp add: str_split_def)
  moreover have "set w \<subseteq> set x"
    using w split_ws_subset [of w "[]" x] by (simp add: str_split_def)
  ultimately show "title_word w"
    using assms by (auto simp: title_word_def list_all_iff title_char_def)
qed

lemma cleaned_chars:
  assumes "is_ascii s"
  shows "\<forall>c\<in>set (rstrip_char 46
     (collapse_ws (str_strip (replace_char 96 39 (replace_char 39 39 (remove_char 34 s)))))).
       c < 128 \<and> c \<noteq> 34 \<and> c \<noteq> 96"
proof
  fix c
  let ?p = "replace_char 96 39 (replace_char 39 39 (remove_char 34 s))"
  assume "c \<in> set (rstrip_char 46 (collapse_ws (str_strip ?p)))"
  then have "c \<in> set (collapse_ws (str_strip ?p))" using set_rstrip_char by blast
  then have "c = 32 \<or> c \<in> set (str_strip ?p)" using set_collapse_ws by blast
  then have "c = 32 \<or> c \<in> set ?p" using set_str_strip by blast
  then have "c = 32 \<or> c = 39 \<or> (c \<in> set s \<and> c \<noteq> 34 \<and> c \<noteq> 96)"
    using set_quotes [of s] by blast
  then show "c < 128 \<and> c \<noteq> 34 \<and> c \<noteq> 96"
    using assms by (auto simp: is_ascii_def list_all_iff)
qed

text \<open>The shape of a cleaned title of an ASCII text.\<close>

lemma clean_title_shape:
  assumes "is_ascii s"
  shows "\<exists>ws. (\<forall>w\<in>set ws. title_word w) \<and> clean_title U s = join [32] ws
     \<and> clean_words U 0 ws = ws"
proof -
  let ?x = "rstrip_char 46 (collapse_ws (str_strip
     (replace_char 96 39 (replace_char 39 39 (remove_char 34 s)))))"
  let ?ws = "str_split ?x"
  have tw: "\<forall>w\<in>set ?ws. title_word w"
    using cleaned_chars [OF assms] by (rule split_title_words)
  then have asc: "\<forall>w\<in>set ?ws. is_ascii w" by (simp add: title_word_is_ascii)
  have "\<forall>w\<in>set (clean_words U 0 ?ws). title_word w"
    using tw by (rule clean_words_title_word)
  moreover have "clean_title U s = join [32] (clean_words U 0 ?ws)"
    by (rule clean_title_unfold)
  moreover have "clean_words U 0 (clean_words U 0 ?ws) = clean_words U 0 ?ws"
    using asc by (rule clean_words_idem)
  ultimately show ?thesis by blast
qed

lemma joined_chars:
  assumes "\<forall>w\<in>set ws. title_word w"
  shows "\<forall>c\<in>set (join [32] ws). c < 128 \<and> c \<noteq> 34 \<and> c \<noteq> 96"
proof
  fix c assume "c \<in> set (join [32] ws)"
  then have "c = 32 \<or> (\<exists>w\<in>set ws. c \<in> set w)" using set_join [of "[32]" ws] by auto
  then show "c < 128 \<and> c \<noteq> 34 \<and> c \<noteq> 96"
    using assms by (auto simp: title_word_def list_all_iff title_char_def)
qed

lemma clean_title_joined:
  assumes "\<forall>w\<in>set ws. title_word w"
  shows "clean_title U (join [32] ws)
     = join [32] (clean_words U 0 (str_split (rstrip_char 46 (join [32] ws))))"
proof -
  have ns: "\<forall>w\<in>set ws. w \<noteq> [] \<and> (\<forall>c\<in>set w. \<not> is_space c)"
    using assms title_word_no_space by blast
  have q: "replace_char 96 39 (replace_char 39 39 (remove_char 34 (join [32] ws))) = join [32] ws"
    using joined_chars [OF assms] by (intro quotes_absent) auto
  show ?thesis
    by (simp add: clean_title_unfold [of U "join [32] ws"] q str_strip_join [OF ns]
        collapse_ws_join [OF ns])
qed

text \<open>
  Claim C9, as amended. The formatter is not idempotent on every input. On an ASCII
  text it is idempotent exactly when its result does not end with a full stop: trailing full stops are stripped before the text
  is split into words, so a full stop that is followed by white space and more full stops
  survives the first pass and is stripped by the second.
\<close>

theorem clean_title_idempotent_iff:
  assumes "is_ascii s"
  shows "(clean_title U (clean_title U s) = clean_title U s)
     = (clean_title U s = [] \<or> last (clean_title U s) \<noteq> 46)"
proof -
  obtain ws where tw: "\<forall>w\<in>set ws. title_word w" and out: "clean_title U s = join [32] ws"
    and stable: "clean_words U 0 ws = ws"
    using clean_title_shape [OF assms] by blast
  let ?out = "join [32] ws"
  have ns: "\<forall>w\<in>set ws. w \<noteq> [] \<and> (\<forall>c\<in>set w. \<not> is_space c)"
    using tw title_word_no_space by blast
  have again: "clean_title U ?out = join [32] (clean_words U 0 (str_split (rstrip_char 46 ?out)))"
    using tw by (rule clean_title_joined)
  show ?thesis
  proof (cases "?out = [] \<or> last ?out \<noteq> 46")
    case True
    then have "rstrip_char 46 ?out = ?out" by (rule rstrip_char_id)
    moreover have "str_split ?out = ws" using ns by (simp add: str_split_def split_ws_join)
    ultimately have "clean_title U ?out = ?out" using again stable by simp
    with True out show ?thesis by simp
  next
    case False
    then have sh: "length (rstrip_char 46 ?out) < length ?out"
      by (intro rstrip_char_shorter) auto
    let ?vs = "str_split (rstrip_char 46 ?out)"
    have "\<forall>c\<in>set (rstrip_char 46 ?out). c < 128 \<and> c \<noteq> 34 \<and> c \<noteq> 96"
      using joined_chars [OF tw] set_rstrip_char [of 46 ?out] by blast
    then have "\<forall>w\<in>set ?vs. title_word w" by (rule split_title_words)
    then have "\<forall>w\<in>set ?vs. is_ascii w" by (simp add: title_word_is_ascii)
    then have "map length (clean_words U 0 ?vs) = map length ?vs"
      by (rule clean_words_lengths)
    then have "length (join [32] (clean_words U 0 ?vs)) = length (join [32] ?vs)"
      by (rule length_join_lengths)
    also have "\<dots> \<le> length (rstrip_char 46 ?out)"
      using length_join_split_ws [of "[]" "rstrip_char 46 ?out"] by (simp add: str_split_def)
    finally have "length (clean_title U ?out) < length ?out" using sh again by simp
    then have "clean_title U ?out \<noteq> ?out" by auto
    with False out show ?thesis by simp
  qed
qed

lemmas str_defs = lit_def is_ascii_def is_space_def ascii_is_upper_def ascii_is_lower_def
  ascii_upper_def ascii_lower_def str_upper_def str_lower_def str_capitalize_def
  replace_char_def remove_char_def str_strip_def rstrip_char_def str_split_def

theorem clean_title_idempotent_iff_witness:
  "is_ascii (lit ''ai guide'')
   \<and> clean_title ascii_tables (lit ''ai guide'') = lit ''AI Guide''
   \<and> clean_title ascii_tables (clean_title ascii_tables (lit ''ai guide''))
       = clean_title ascii_tables (lit ''ai guide'')"
proof -
  have a: "is_ascii (lit ''ai guide'')" by (simp add: is_ascii_def lit_def)
  have e: "clean_title ascii_tables (lit ''ai guide'') = lit ''AI Guide''"
    by (simp add: clean_title_def clean_word_def always_caps_def articles_prepositions_def
        str_defs Let_def)
  have "last (lit ''AI Guide'') \<noteq> 46" by (simp add: lit_def)
  with a e show ?thesis
    using clean_title_idempotent_iff [OF a, of ascii_tables] by simp
qed

text \<open>
  Claim C9 as stated fails on \<open>a. .\<close>: the first pass gives \<open>A.\<close>, the second \<open>A\<close>.
\<close>

theorem clean_title_not_idempotent:
  "clean_title ascii_tables (clean_title ascii_tables (lit ''a. .''))
     \<noteq> clean_title ascii_tables (lit ''a. .'')"
  by (simp add: clean_title_def clean_word_def always_caps_def articles_prepositions_def
        str_defs Let_def)

text \<open>
  Claim C2. On \<open>the ai guide to saas\<close> the claim expects \<open>The AI Guide to SaaS\<close>. The code
  returns \<open>The AI Guide to Saas\<close>: the test of line 164 compares the upper-cased word
  (\<open>SAAS\<close>) with the set, whose entry is \<open>SaaS\<close>, so the word falls through to the
  branch of the words longer than 3 characters and is capitalized.
\<close>

theorem clean_title_saas:
  "clean_title U (lit ''the ai guide to saas'') = lit ''The AI Guide to Saas''
   \<and> clean_title U (lit ''the ai guide to saas'') \<noteq> lit ''The AI Guide to SaaS''"
  by (simp add: clean_title_def clean_word_def always_caps_def articles_prepositions_def
        str_defs Let_def)

text \<open>
  The entries \<open>IoT\<close> and \<open>SaaS\<close> of the set are never matched: no upper-cased ASCII word
  has a lower-case letter.
\<close>

lemma mixed_case_entries_unmatched:
  assumes "is_ascii w"
  shows "str_upper U w \<noteq> lit ''IoT'' \<and> str_upper U w \<noteq> lit ''SaaS''"
proof -
  have "ascii_upper c \<noteq> 111 \<and> ascii_upper c \<noteq> 97" for c
    by (auto simp: ascii_upper_def ascii_is_lower_def)
  then show ?thesis
    using assms by (auto simp: str_upper_def lit_def)
qed

section \<open>Properties of the rounding to a double\<close>

lemma halvings_spec: "1 \<le> x \<Longrightarrow> 2 ^ halvings x \<le> x \<and> x < 2 * 2 ^ halvings x"
proof (induction x rule: halvings.induct)
  case (1 x)
  show ?case
  proof (cases "x < 2")
    case True
    with "1.prems" show ?thesis by (simp add: halvings.simps [of x])
  next
    case False
    then have "1 \<le> x / 2" by simp
    with "1.IH" [OF False] have "2 ^ halvings (x / 2) \<le> x / 2 \<and> x / 2 < 2 * 2 ^ halvings (x / 2)"
      by blast
    with False show ?thesis by (simp add: halvings.simps [of x])
  qed
qed

lemma doublings_spec:
  "0 < x \<Longrightarrow> x < 1 \<Longrightarrow> 1 \<le> x * 2 ^ doublings x \<and> x * 2 ^ doublings x < 2"
proof (induction x rule: doublings.induct)
  case (1 x)
  have n: "\<not> (x \<le> 0 \<or> 1 \<le> x)" using "1.prems" by simp
  show ?case
  proof (cases "1 \<le> 2 * x")
    case True
    then have "doublings (2 * x) = 0" by (simp add: doublings.simps [of "2 * x"])
    then have "doublings x = 1" using n by (simp add: doublings.simps [of x])
    with True "1.prems" show ?thesis by simp
  next
    case False
    then have "2 * x < 1" "0 < 2 * x" using "1.prems" by simp_all
    with "1.IH" [OF n] have "1 \<le> 2 * x * 2 ^ doublings (2 * x) \<and> 2 * x * 2 ^ doublings (2 * x) < 2"
      by blast
    moreover have "doublings x = Suc (doublings (2 * x))" using n by (simp add: doublings.simps [of x])
    ultimately show ?thesis by (simp add: mult.assoc mult.left_commute)
  qed
qed

lemma ilog2_spec:
  assumes "0 < x"
  shows "2 powi ilog2 x \<le> x \<and> x < 2 powi (ilog2 x + 1)"
proof (cases "1 \<le> x")
  case True
  then have "ilog2 x = int (halvings x)" by (simp add: ilog2_def)
  moreover have "(2::rat) powi (int (halvings x) + 1) = 2 * 2 ^ halvings x"
    by (simp add: power_int_add)
  ultimately show ?thesis using halvings_spec [OF True] by simp
next
  case False
  then have x: "x < 1" by simp
  let ?d = "doublings x"
  have e: "ilog2 x = - int ?d" using False by (simp add: ilog2_def)
  have s: "1 \<le> x * 2 ^ ?d \<and> x * 2 ^ ?d < 2" using assms x by (rule doublings_spec)
  have p: "(2::rat) powi (- int ?d) = 1 / 2 ^ ?d" by (simp add: power_int_minus_divide)
  have "(2::rat) powi (- int ?d + 1) = 2 powi (- int ?d) * 2 powi 1"
    by (rule power_int_add) simp
  then have p1: "(2::rat) powi (- int ?d + 1) = 2 / 2 ^ ?d" by (simp only: p) simp
  have "1 / 2 ^ ?d \<le> x" using s by (simp add: field_simps)
  moreover have "x < 2 / 2 ^ ?d" using s by (simp add: field_simps)
  ultimately show ?thesis by (simp only: e p p1)
qed

lemma powi2_less_imp: "(2::rat) powi a < 2 powi b \<Longrightarrow> a < b"
  using power_int_increasing [of b a "2::rat"] by (cases "a < b") auto

lemma ilog2_unique:
  assumes "0 < x" "2 powi k \<le> x" "x < 2 powi (k + 1)"
  shows "ilog2 x = k"
proof -
  have s: "2 powi ilog2 x \<le> x" "x < 2 powi (ilog2 x + 1)" using ilog2_spec [OF assms(1)] by simp_all
  have "(2::rat) powi k < 2 powi (ilog2 x + 1)" using assms(2) s(2) by simp
  then have "k < ilog2 x + 1" by (rule powi2_less_imp)
  moreover have "(2::rat) powi ilog2 x < 2 powi (k + 1)" using assms(3) s(1) by simp
  then have "ilog2 x < k + 1" by (rule powi2_less_imp)
  ultimately show ?thesis by simp
qed

lemma ilog2_mono:
  assumes "0 < x" "x \<le> y"
  shows "ilog2 x \<le> ilog2 y"
proof -
  have "0 < y" using assms by simp
  then have "y < 2 powi (ilog2 y + 1)" using ilog2_spec by blast
  moreover have "2 powi ilog2 x \<le> x" using ilog2_spec [OF assms(1)] by blast
  ultimately have "(2::rat) powi ilog2 x < 2 powi (ilog2 y + 1)" using assms(2) by simp
  then have "ilog2 x < ilog2 y + 1" by (rule powi2_less_imp)
  then show ?thesis by simp
qed

lemma round_half_even_of_int: "round_half_even (of_int n) = n"
  by (simp add: round_half_even_def)

lemma round_half_even_range:
  "\<lfloor>x\<rfloor> \<le> round_half_even x \<and> round_half_even x \<le> \<lfloor>x\<rfloor> + 1"
  by (simp add: round_half_even_def Let_def)

lemma round_half_even_mono:
  assumes "x \<le> y"
  shows "round_half_even x \<le> round_half_even y"
proof (cases "\<lfloor>x\<rfloor> = \<lfloor>y\<rfloor>")
  case True
  have "x - of_int \<lfloor>x\<rfloor> \<le> y - of_int \<lfloor>y\<rfloor>" using assms True by simp
  then show ?thesis
    using True by (auto simp: round_half_even_def Let_def)
next
  case False
  then have "\<lfloor>x\<rfloor> < \<lfloor>y\<rfloor>" using floor_mono [OF assms] by simp
  then show ?thesis
    using round_half_even_range [of x] round_half_even_range [of y] by linarith
qed

lemma round_half_even_minus: "round_half_even (- x) = - round_half_even x"
proof (cases "x = of_int \<lfloor>x\<rfloor>")
  case True
  then have "round_half_even x = \<lfloor>x\<rfloor>" using round_half_even_of_int [of "\<lfloor>x\<rfloor>"] by simp
  moreover have "- x = of_int (- \<lfloor>x\<rfloor>)" using True by simp
  then have "round_half_even (- x) = - \<lfloor>x\<rfloor>" using round_half_even_of_int [of "- \<lfloor>x\<rfloor>"] by simp
  ultimately show ?thesis by simp
next
  case False
  then have f: "\<lfloor>- x\<rfloor> = - \<lfloor>x\<rfloor> - 1"
    by (simp add: floor_minus ceiling_altdef)
  have d: "- x - of_int \<lfloor>- x\<rfloor> = 1 - (x - of_int \<lfloor>x\<rfloor>)" by (simp add: f)
  have e: "even (- \<lfloor>x\<rfloor> - 1) = odd \<lfloor>x\<rfloor>" by simp
  show ?thesis
    unfolding round_half_even_def Let_def d f e
    by (auto simp: not_less)
qed

lemma round_to_double_minus: "round_to_double (- x) = - round_to_double x"
  by (simp add: round_to_double_def Let_def round_half_even_minus)

text \<open>A positive number and its double lie between the same two powers of two.\<close>

lemma round_to_double_bounds:
  assumes "0 < x"
  shows "2 powi ilog2 x \<le> round_to_double x \<and> round_to_double x \<le> 2 powi (ilog2 x + 1)"
proof -
  let ?e = "ilog2 x"
  let ?q = "(2::rat) powi (?e - 52)"
  have q: "0 < ?q" by simp
  have "(2::rat) powi (?e - 52 + 52) = 2 powi (?e - 52) * 2 powi 52"
    by (rule power_int_add) simp
  then have lo: "2 powi ?e = of_int (2 ^ 52) * ?q"
    by (simp add: mult.commute)
  have "(2::rat) powi (?e - 52 + 53) = 2 powi (?e - 52) * 2 powi 53"
    by (rule power_int_add) simp
  moreover have "?e - 52 + 53 = ?e + 1" by simp
  ultimately have hi: "2 powi (?e + 1) = of_int (2 ^ 53) * ?q"
    by (simp add: mult.commute)
  have s: "2 powi ?e \<le> x" "x < 2 powi (?e + 1)" using ilog2_spec [OF assms] by simp_all
  have "of_int (2 ^ 52) \<le> x / ?q" using s(1) q by (simp only: lo pos_le_divide_eq)
  then have "round_half_even (of_int (2 ^ 52)) \<le> round_half_even (x / ?q)"
    by (rule round_half_even_mono)
  then have a: "2 ^ 52 \<le> round_half_even (x / ?q)" by (simp only: round_half_even_of_int)
  have "x / ?q \<le> of_int (2 ^ 53)" using s(2) q by (simp only: hi pos_divide_le_eq less_imp_le)
  then have "round_half_even (x / ?q) \<le> round_half_even (of_int (2 ^ 53))"
    by (rule round_half_even_mono)
  then have b: "round_half_even (x / ?q) \<le> 2 ^ 53" by (simp only: round_half_even_of_int)
  have r: "round_to_double x = of_int (round_half_even (x / ?q)) * ?q"
    using assms by (simp add: round_to_double_def Let_def)
  have "of_int (2 ^ 52) * ?q \<le> of_int (round_half_even (x / ?q)) * ?q"
    using a q by (intro mult_right_mono) (simp_all only: of_int_le_iff less_imp_le)
  moreover have "of_int (round_half_even (x / ?q)) * ?q \<le> of_int (2 ^ 53) * ?q"
    using b q by (intro mult_right_mono) (simp_all only: of_int_le_iff less_imp_le)
  ultimately show ?thesis by (simp only: r lo hi)
qed

lemma round_to_double_mono_pos:
  assumes "0 < x" "x \<le> y"
  shows "round_to_double x \<le> round_to_double y"
proof (cases "ilog2 x = ilog2 y")
  case True
  let ?q = "(2::rat) powi (ilog2 x - 52)"
  have q: "0 < ?q" by simp
  have y: "0 < y" using assms by simp
  have "x / ?q \<le> y / ?q" using assms(2) q by (simp add: divide_right_mono)
  then have "round_half_even (x / ?q) \<le> round_half_even (y / ?q)" by (rule round_half_even_mono)
  then have "of_int (round_half_even (x / ?q)) * ?q \<le> of_int (round_half_even (y / ?q)) * ?q"
    using q by (intro mult_right_mono) (simp_all only: of_int_le_iff less_imp_le)
  then show ?thesis using assms(1) y True by (simp add: round_to_double_def Let_def)
next
  case False
  have y: "0 < y" using assms by simp
  have "ilog2 x \<le> ilog2 y" using assms by (rule ilog2_mono)
  with False have "ilog2 x + 1 \<le> ilog2 y" by simp
  then have "(2::rat) powi (ilog2 x + 1) \<le> 2 powi ilog2 y"
    by (intro power_int_increasing) simp_all
  then show ?thesis
    using round_to_double_bounds [OF assms(1)] round_to_double_bounds [OF y] by linarith
qed

lemma round_to_double_pos: "0 < x \<Longrightarrow> 0 < round_to_double x"
proof -
  assume x: "0 < x"
  have "(0::rat) < 2 powi ilog2 x" by simp
  then show ?thesis using round_to_double_bounds [OF x] by linarith
qed

lemma round_to_double_mono:
  assumes "x \<le> y"
  shows "round_to_double x \<le> round_to_double y"
proof -
  consider "0 < x" | "x \<le> 0" "0 \<le> y" | "y < 0" using assms by linarith
  then show ?thesis
  proof cases
    case 1
    then show ?thesis using assms by (rule round_to_double_mono_pos)
  next
    case 2
    have "round_to_double x \<le> 0"
    proof (cases "x = 0")
      case True
      then show ?thesis by (simp add: round_to_double_def)
    next
      case False
      with 2 have "0 < - x" by simp
      then have "0 < round_to_double (- x)" by (rule round_to_double_pos)
      then show ?thesis by (simp add: round_to_double_minus)
    qed
    moreover have "0 \<le> round_to_double y"
    proof (cases "y = 0")
      case True
      then show ?thesis by (simp add: round_to_double_def)
    next
      case False
      with 2 have "0 < y" by simp
      then show ?thesis using round_to_double_pos by (simp add: less_imp_le)
    qed
    ultimately show ?thesis by simp
  next
    case 3
    then have "0 < - y" "- y \<le> - x" using assms by simp_all
    then have "round_to_double (- y) \<le> round_to_double (- x)" by (rule round_to_double_mono_pos)
    then show ?thesis by (simp add: round_to_double_minus)
  qed
qed

text \<open>Rounding a number whose binary exponent is known.\<close>

lemma round_to_double_at:
  assumes "2 powi k \<le> \<bar>x\<bar>" "\<bar>x\<bar> < 2 powi (k + 1)"
  shows "round_to_double x = of_int (round_half_even (x / 2 powi (k - 52))) * 2 powi (k - 52)"
proof -
  have "(0::rat) < 2 powi k" by simp
  then have p: "0 < \<bar>x\<bar>" using assms(1) by linarith
  then have "ilog2 \<bar>x\<bar> = k" using assms by (rule ilog2_unique)
  moreover have "x \<noteq> 0" using p by simp
  ultimately show ?thesis by (simp add: round_to_double_def Let_def)
qed

lemma round_half_even_near:
  assumes "\<bar>x - of_int n\<bar> < 1 / 2"
  shows "round_half_even x = n"
proof (cases "of_int n \<le> x")
  case True
  have "\<lfloor>x\<rfloor> = n" using True assms by (intro floor_unique) linarith+
  then show ?thesis using True assms by (simp add: round_half_even_def Let_def)
next
  case False
  have f: "\<lfloor>x\<rfloor> = n - 1" using False assms by (intro floor_unique) (simp, linarith)+
  have "1 / 2 < x - of_int (n - 1)" using False assms by simp
  then show ?thesis by (simp add: round_half_even_def Let_def f)
qed

lemma round_to_double_near:
  assumes "2 powi k \<le> \<bar>x\<bar>" "\<bar>x\<bar> < 2 powi (k + 1)"
    and "\<bar>x / 2 powi (k - 52) - of_int n\<bar> < 1 / 2"
  shows "round_to_double x = of_int n * 2 powi (k - 52)"
  using round_to_double_at [OF assms(1,2)] round_half_even_near [OF assms(3)] by simp

lemma double_0_7: "round_to_double (7 / 10) = 3152519739159347 / 4503599627370496"
  using round_to_double_near [of "-1" "7 / 10" 6305039478318694] by simp

lemma double_0_1: "round_to_double (1 / 10) = 3602879701896397 / 36028797018963968"
  using round_to_double_near [of "-4" "1 / 10" 7205759403792794] by simp

lemma double_0_7_again:
  "round_to_double (3152519739159347 / 4503599627370496) = 3152519739159347 / 4503599627370496"
  using round_to_double_near [of "-1" "3152519739159347 / 4503599627370496" 6305039478318694]
  by simp

lemma double_0: "round_to_double 0 = 0"
  by (simp add: round_to_double_def)

lemma double_6: "round_to_double 6 = 6"
  using round_to_double_near [of 2 6 6755399441055744] by simp

lemma double_7: "round_to_double 7 = 7"
  using round_to_double_near [of 2 7 7881299347898368] by simp

lemma double_7_tenths:
  "round_to_double (25220157913274779 / 36028797018963968) = 6305039478318695 / 9007199254740992"
  using round_to_double_near [of "-1" "25220157913274779 / 36028797018963968" 6305039478318695]
  by simp

lemma double_minus_ulp:
  "round_to_double (- (1 / 9007199254740992)) = - (1 / 9007199254740992)"
  using round_to_double_near [of "-53" "- (1 / 9007199254740992)" "- 4503599627370496"]
  by simp

lemma rule_confidence_0: "rule_confidence 0 = 3152519739159347 / 4503599627370496"
  by (simp add: rule_confidence_def double_0 double_0_7 double_0_7_again)

lemma rule_confidence_7: "rule_confidence 7 = - (1 / 9007199254740992)"
proof -
  have "round_to_double (7 / 10) - round_to_double (round_to_double (of_nat 7) * round_to_double (1 / 10))
      = - (1 / 9007199254740992)"
    by (simp add: double_7 double_0_1 double_0_7 double_7_tenths)
  then show ?thesis by (simp only: rule_confidence_def double_minus_ulp)
qed

lemma rule_confidence_antitone:
  assumes "i \<le> j"
  shows "rule_confidence j \<le> rule_confidence i"
proof -
  have c: "0 \<le> round_to_double (1 / 10)" by (simp add: double_0_1)
  have "(of_nat i :: rat) \<le> of_nat j" using assms by simp
  then have "round_to_double (of_nat i) \<le> round_to_double (of_nat j)"
    by (rule round_to_double_mono)
  then have "round_to_double (of_nat i) * round_to_double (1 / 10)
      \<le> round_to_double (of_nat j) * round_to_double (1 / 10)"
    using c by (rule mult_right_mono)
  then have "round_to_double (round_to_double (of_nat i) * round_to_double (1 / 10))
      \<le> round_to_double (round_to_double (of_nat j) * round_to_double (1 / 10))"
    by (rule round_to_double_mono)
  then have "round_to_double (7 / 10)
        - round_to_double (round_to_double (of_nat j) * round_to_double (1 / 10))
      \<le> round_to_double (7 / 10)
        - round_to_double (round_to_double (of_nat i) * round_to_double (1 / 10))"
    by simp
  then show ?thesis
    unfolding rule_confidence_def by (rule round_to_double_mono)
qed

lemma rule_confidence_le: "rule_confidence i \<le> 7 / 10"
proof -
  have "rule_confidence i \<le> rule_confidence 0" by (rule rule_confidence_antitone) simp
  then show ?thesis by (simp add: rule_confidence_0)
qed

lemma rule_confidence_6_nonneg: "0 \<le> rule_confidence 6"
proof -
  have "round_to_double 6 * round_to_double (1 / 10) \<le> 3152519739159347 / 4503599627370496"
    by (simp add: double_6 double_0_1)
  then have "round_to_double (round_to_double 6 * round_to_double (1 / 10))
      \<le> round_to_double (3152519739159347 / 4503599627370496)"
    by (rule round_to_double_mono)
  then have "0 \<le> round_to_double (7 / 10)
      - round_to_double (round_to_double (of_nat 6) * round_to_double (1 / 10))"
    by (simp add: double_0_7 double_0_7_again)
  then have "round_to_double 0 \<le> rule_confidence 6"
    unfolding rule_confidence_def by (rule round_to_double_mono)
  then show ?thesis by (simp add: double_0)
qed

lemma rule_confidence_sign: "(0 \<le> rule_confidence i) = (i \<le> 6)"
proof (cases "i \<le> 6")
  case True
  then have "rule_confidence 6 \<le> rule_confidence i" by (rule rule_confidence_antitone)
  with True show ?thesis using rule_confidence_6_nonneg by simp
next
  case False
  then have "7 \<le> i" by simp
  then have "rule_confidence i \<le> rule_confidence 7" by (rule rule_confidence_antitone)
  with False show ?thesis by (simp add: rule_confidence_7)
qed

section \<open>Properties of \<open>_rule_based_titles\<close>\<close>

lemma rule_loop_eq:
  "i + k \<le> length kps \<Longrightarrow>
   rule_loop kps i k titles used =
     titles @ map (rule_candidate kps)
       (filter (\<lambda>j. kps ! j \<notin> used \<union> set (take (j - i) (drop i kps))) [i ..< i + k])"
proof (induction k arbitrary: i titles used)
  case 0
  then show ?case by simp
next
  case (Suc k)
  have up: "[i ..< Suc (i + k)] = i # [Suc i ..< Suc (i + k)]"
    by (simp add: upt_rec)
  have lt: "i < length kps" using Suc.prems by simp
  have dr: "take (j - i) (drop i kps) = kps ! i # take (j - Suc i) (drop (Suc i) kps)"
    if "j \<in> set [Suc i ..< Suc (i + k)]" for j
  proof -
    from that have "j - i = Suc (j - Suc i)" by auto
    then show ?thesis using lt by (simp add: Cons_nth_drop_Suc [symmetric])
  qed
  show ?case
  proof (cases "kps ! i \<notin> used")
    case True
    have "filter (\<lambda>j. kps ! j \<notin> insert (kps ! i) used \<union> set (take (j - Suc i) (drop (Suc i) kps)))
            [Suc i ..< Suc (i + k)]
        = filter (\<lambda>j. kps ! j \<notin> used \<union> set (take (j - i) (drop i kps))) [Suc i ..< Suc (i + k)]"
      by (rule filter_cong) (auto simp: dr)
    with True lt show ?thesis
      using Suc.IH [of "Suc i" "titles @ [rule_candidate kps i]" "insert (kps ! i) used"] Suc.prems
      by (simp add: up del: upt_Suc)
  next
    case False
    have "filter (\<lambda>j. kps ! j \<notin> used \<union> set (take (j - Suc i) (drop (Suc i) kps)))
            [Suc i ..< Suc (i + k)]
        = filter (\<lambda>j. kps ! j \<notin> used \<union> set (take (j - i) (drop i kps))) [Suc i ..< Suc (i + k)]"
      using False by (intro filter_cong) (auto simp: dr)
    with False lt show ?thesis
      using Suc.IH [of "Suc i" titles used] Suc.prems
      by (simp add: up del: upt_Suc)
  qed
qed

lemma rule_based_titles_eq:
  "rule_based_titles U content n =
     (let kps = key_phrases U (str_split content)
      in map (rule_candidate kps)
           (filter (\<lambda>i. kps ! i \<notin> set (take i kps)) [0 ..< nat (min n (int (length kps)))]))"
  using rule_loop_eq [of 0 "nat (min n (int (length (key_phrases U (str_split content)))))"
      "key_phrases U (str_split content)" "[]" "{}"]
  by (simp add: rule_based_titles_def Let_def)

text \<open>
  Claim C8, as amended. The rule-based tier emits, for every loop index \<open>i\<close> below
  \<open>min(num_titles, phrase_count)\<close> whose key phrase has not occurred at an earlier index,
  in the order of the indices, the template \<open>i mod 10\<close> filled with the key phrase \<open>i\<close>,
  with the method \<open>rule_based\<close> and the confidence \<open>0.7 - (i * 0.1)\<close> as the floating-point
  arithmetic gives it. No floor is applied: this confidence is non-negative exactly for
  \<open>i \<le> 6\<close>, where it equals \<open>max(0.7 - (i * 0.1), 0)\<close>, and negative from \<open>i = 7\<close> on.
\<close>

theorem rule_based_titles_candidates:
  "rule_based_titles U content n =
     (let kps = key_phrases U (str_split content)
      in map (\<lambda>i. \<lparr>title = fst (templates ! (i mod 10)) @ kps ! i @ snd (templates ! (i mod 10)),
                   confidence = rule_confidence i,
                   method_name = RuleBased\<rparr>)
           (filter (\<lambda>i. kps ! i \<notin> set (take i kps)) [0 ..< nat (min n (int (length kps)))]))
   \<and> (0 \<le> rule_confidence i) = (i \<le> 6)
   \<and> (rule_confidence i = max (rule_confidence i) 0) = (i \<le> 6)"
proof -
  have "length templates = 10" by (simp add: templates_def)
  then have "rule_candidate kps j
      = \<lparr>title = fst (templates ! (j mod 10)) @ kps ! j @ snd (templates ! (j mod 10)),
         confidence = rule_confidence j,
         method_name = RuleBased\<rparr>" for kps j
    by (simp add: rule_candidate_def format_template_def)
  then have "rule_candidate kps
      = (\<lambda>j. \<lparr>title = fst (templates ! (j mod 10)) @ kps ! j @ snd (templates ! (j mod 10)),
               confidence = rule_confidence j,
               method_name = RuleBased\<rparr>)" for kps
    by blast
  then have 1: "rule_based_titles U content n =
     (let kps = key_phrases U (str_split content)
      in map (\<lambda>i. \<lparr>title = fst (templates ! (i mod 10)) @ kps ! i @ snd (templates ! (i mod 10)),
                   confidence = rule_confidence i,
                   method_name = RuleBased\<rparr>)
           (filter (\<lambda>i. kps ! i \<notin> set (take i kps)) [0 ..< nat (min n (int (length kps)))]))"
    by (simp add: rule_based_titles_eq Let_def)
  have 2: "(0 \<le> rule_confidence i) = (i \<le> 6)"
    by (rule rule_confidence_sign)
  have "(rule_confidence i = max (rule_confidence i) 0) = (0 \<le> rule_confidence i)"
    by (auto simp: max_def)
  with 1 2 show ?thesis by simp
qed

section \<open>Properties of the loops of \<open>generate_titles\<close>\<close>

lemma top_up_eq:
  "top_up U c n titles
     = titles @ map (create_smart_fallback_title U c) [length titles ..< nat n]"
proof (induction U c n titles rule: top_up.induct)
  case (1 U c n titles)
  show ?case
  proof (cases "int (length titles) < n")
    case True
    let ?f = "create_smart_fallback_title U c (length titles)"
    have t: "VDict ?f \<notin> set (map (\<lambda>t. VStr (title t)) titles)" by auto
    have "top_up U c n titles = top_up U c n (titles @ [?f])"
      using True t by (subst top_up.simps) (simp add: Let_def)
    also have "\<dots> = (titles @ [?f]) @ map (create_smart_fallback_title U c) [Suc (length titles) ..< nat n]"
      using "1.IH" [OF True refl t] by simp
    also have "\<dots> = titles @ map (create_smart_fallback_title U c) [length titles ..< nat n]"
      using True by (simp add: upt_rec [of "length titles" "nat n"])
    finally show ?thesis .
  next
    case False
    then show ?thesis by (subst top_up.simps) simp
  qed
qed

lemma round2_hundredths: "round2 (of_int m / 100) = of_int m / 100"
  by (simp add: round2_def round_half_even_def Let_def)

lemma ai_confidence_closed:
  "ai_confidence i = max (9 / 10 - of_nat i / 10) (6 / 10)"
proof -
  have "max (9 / 10 - of_nat i * (1 / 10)) (6 / 10) = (of_int (max (90 - 10 * int i) 60) / 100 :: rat)"
    by (simp add: max_def field_simps)
  then have "ai_confidence i = of_int (max (90 - 10 * int i) 60) / 100"
    by (simp only: ai_confidence_def round2_hundredths)
  also have "\<dots> = max (9 / 10 - of_nat i / 10) (6 / 10)"
    by (simp add: max_def field_simps)
  finally show ?thesis .
qed

lemma ai_confidence_antitone: "i \<le> j \<Longrightarrow> ai_confidence j \<le> ai_confidence i"
  by (simp add: ai_confidence_closed max_def field_simps)

lemma ai_confidence_bounds: "6 / 10 \<le> ai_confidence i" "ai_confidence i \<le> 9 / 10"
  by (simp_all add: ai_confidence_closed max_def field_simps)

lemma sorted_append_bound:
  assumes "sorted_wrt (\<lambda>a b. confidence b \<le> confidence a) xs"
    and "sorted_wrt (\<lambda>a b. confidence b \<le> confidence a) ys"
    and "\<forall>x\<in>set xs. q \<le> confidence x"
    and "\<forall>y\<in>set ys. confidence y \<le> q"
  shows "sorted_wrt (\<lambda>a b. confidence b \<le> confidence a) (xs @ ys)"
proof -
  have "confidence y \<le> confidence x" if "x \<in> set xs" "y \<in> set ys" for x y
    using assms(3,4) that order_trans by blast
  with assms(1,2) show ?thesis by (simp add: sorted_wrt_append)
qed

lemma constant_sorted:
  "\<forall>x\<in>set xs. confidence x = q \<Longrightarrow> sorted_wrt (\<lambda>a b. confidence b \<le> confidence a) xs"
  by (induction xs) auto

text \<open>One attempt of the loop keeps the list sorted, above the confidence of the next attempt.\<close>

lemma ai_attempt_inv:
  assumes s: "sorted_wrt (\<lambda>a b. confidence b \<le> confidence a) titles"
    and b: "\<forall>t\<in>set titles. method_name t = AI \<and> ai_confidence i \<le> confidence t"
  shows "sorted_wrt (\<lambda>a b. confidence b \<le> confidence a)
           (titles @ [\<lparr>title = t, confidence = ai_confidence i, method_name = AI\<rparr>])
     \<and> (\<forall>x\<in>set (titles @ [\<lparr>title = t, confidence = ai_confidence i, method_name = AI\<rparr>]).
           method_name x = AI \<and> ai_confidence (Suc i) \<le> confidence x)"
proof -
  have st: "ai_confidence (Suc i) \<le> ai_confidence i"
    by (rule ai_confidence_antitone) simp
  have "sorted_wrt (\<lambda>a b. confidence b \<le> confidence a)
           (titles @ [\<lparr>title = t, confidence = ai_confidence i, method_name = AI\<rparr>])"
    using s b by (intro sorted_append_bound [where q = "ai_confidence i"]) simp_all
  moreover have "method_name x = AI \<and> ai_confidence (Suc i) \<le> confidence x"
    if "x \<in> set titles" for x
    using b st that order_trans by blast
  ultimately show ?thesis using st by simp
qed

lemma ai_loop_inv:
  assumes "sorted_wrt (\<lambda>a b. confidence b \<le> confidence a) titles"
    and "\<forall>t\<in>set titles. method_name t = AI \<and> ai_confidence i \<le> confidence t"
  shows "sorted_wrt (\<lambda>a b. confidence b \<le> confidence a) (ai_loop U summ c i k titles)
     \<and> (\<forall>t\<in>set (ai_loop U summ c i k titles).
           method_name t = AI \<and> ai_confidence (i + k) \<le> confidence t)"
  using assms
proof (induction k arbitrary: i titles)
  case 0
  then show ?case by simp
next
  case (Suc k)
  let ?T = "case summ i (lit ''headline: '' @ c) of
          Raises \<Rightarrow> titles
        | Returns [] \<Rightarrow> titles
        | Returns (summary_text # others) \<Rightarrow>
            (let t = clean_title U (str_strip summary_text)
             in if t \<noteq> [] \<and> length (str_split t) \<ge> 3 \<and> t \<notin> set (map title titles)
                then titles @ [\<lparr>title = t, confidence = ai_confidence i, method_name = AI\<rparr>]
                else titles)"
  have st: "ai_confidence (Suc i) \<le> ai_confidence i"
    by (rule ai_confidence_antitone) simp
  have keep: "\<forall>t\<in>set titles. method_name t = AI \<and> ai_confidence (Suc i) \<le> confidence t"
    using Suc.prems(2) st order_trans by blast
  have T: "sorted_wrt (\<lambda>a b. confidence b \<le> confidence a) ?T
     \<and> (\<forall>t\<in>set ?T. method_name t = AI \<and> ai_confidence (Suc i) \<le> confidence t)"
  proof (cases "summ i (lit ''headline: '' @ c)")
    case Raises
    then show ?thesis using Suc.prems(1) keep by simp
  next
    case (Returns rs)
    show ?thesis
    proof (cases rs)
      case Nil
      with Returns show ?thesis using Suc.prems(1) keep by simp
    next
      case (Cons r others)
      show ?thesis
      proof (cases "clean_title U (str_strip r) \<noteq> [] \<and> length (str_split (clean_title U (str_strip r))) \<ge> 3
          \<and> clean_title U (str_strip r) \<notin> set (map title titles)")
        case True
        then have "?T = titles @ [\<lparr>title = clean_title U (str_strip r),
            confidence = ai_confidence i, method_name = AI\<rparr>]"
          using Returns Cons by (simp add: Let_def)
        then show ?thesis
          using ai_attempt_inv [OF Suc.prems, of "clean_title U (str_strip r)"] by simp
      next
        case False
        then have "?T = titles" using Returns Cons by (simp add: Let_def)
        then show ?thesis using Suc.prems(1) keep by simp
      qed
    qed
  qed
  have "ai_loop U summ c i (Suc k) titles = ai_loop U summ c (Suc i) k ?T"
    by (simp only: ai_loop.simps)
  then show ?case
    using Suc.IH [of ?T "Suc i"] T by simp
qed

lemma fallback_titles_confidence:
  "\<forall>t\<in>set (fallback_titles c n). method_name t = BasicFallback \<and> confidence t = 4 / 10"
  by (auto simp: fallback_titles_def basic_candidate_def)

lemma smart_confidence:
  "method_name (create_smart_fallback_title U c i) = SmartFallback
   \<and> confidence (create_smart_fallback_title U c i) = 6 / 10"
  by (simp add: create_smart_fallback_title_def Let_def)

lemma rule_candidate_fields:
  "method_name (rule_candidate kps i) = RuleBased"
  "confidence (rule_candidate kps i) = rule_confidence i"
  by (simp_all add: rule_candidate_def)

lemma rule_based_sorted:
  "sorted_wrt (\<lambda>a b. confidence b \<le> confidence a) (rule_based_titles U c n)"
proof -
  let ?kps = "key_phrases U (str_split c)"
  let ?is = "filter (\<lambda>i. ?kps ! i \<notin> set (take i ?kps)) [0 ..< nat (min n (int (length ?kps)))]"
  have up: "sorted_wrt (<) ?is"
    by (intro sorted_wrt_filter) simp
  have "sorted_wrt (\<lambda>i j. confidence (rule_candidate ?kps j) \<le> confidence (rule_candidate ?kps i)) ?is"
  proof (rule sorted_wrt_mono_rel [where P = "(<)"])
    show "sorted_wrt (<) ?is" by (rule up)
  next
    fix i j :: nat
    assume "i < j"
    then have "rule_confidence j \<le> rule_confidence i"
      by (intro rule_confidence_antitone) simp
    then show "confidence (rule_candidate ?kps j) \<le> confidence (rule_candidate ?kps i)"
      by (simp only: rule_candidate_fields)
  qed
  then show ?thesis
    by (simp add: rule_based_titles_eq Let_def sorted_wrt_map)
qed

lemma rule_based_confidence:
  "\<forall>t\<in>set (rule_based_titles U c n). method_name t = RuleBased \<and> confidence t \<le> 7 / 10"
proof -
  have "confidence (rule_candidate kps i) \<le> 7 / 10" for kps i
    using rule_confidence_le [of i] by (simp only: rule_candidate_fields)
  then show ?thesis
    by (auto simp: rule_based_titles_eq Let_def rule_candidate_fields(1))
qed

lemma rule_based_length:
  "length (rule_based_titles U c n) \<le> nat (min n (int (length (key_phrases U (str_split c)))))"
proof -
  let ?m = "nat (min n (int (length (key_phrases U (str_split c)))))"
  have "length (filter P [0 ..< ?m]) \<le> ?m" for P
    using length_filter_le [of P "[0 ..< ?m]"] by simp
  then show ?thesis
    by (simp add: rule_based_titles_eq Let_def)
qed

section \<open>Evaluation on concrete texts\<close>

lemmas clean_defs = clean_content_def normalise_def keep_char_def is_word_def ascii_is_digit_def

lemma cloud_clean: "clean_content U (lit ''Cloud servers are a very good thing for all of us today'')
   = lit ''Cloud servers are a very good thing for all of us today''"
  by (simp add: clean_defs str_defs Let_def)

lemma cloud_split: "str_split (lit ''Cloud servers are a very good thing for all of us today'')
  = map lit [''Cloud'', ''servers'', ''are'', ''a'', ''very'', ''good'', ''thing'', ''for'',
      ''all'', ''of'', ''us'', ''today'']"
  by (simp add: str_defs)

lemma cloud_smart_1: "create_smart_fallback_title U (lit ''Cloud servers are a very good thing for all of us today'') 1
  = \<lparr>title = lit ''Understanding Cloud Servers'', confidence = 6 / 10, method_name = SmartFallback\<rparr>"
  unfolding create_smart_fallback_title_def important_words_def cloud_split
  by (simp add: fallback_patterns_def smart_stopwords_def
     str_title_def Let_def lit_def is_ascii_def str_lower_def ascii_lower_def ascii_upper_def ascii_is_upper_def ascii_is_lower_def)

lemma uc_title: "clean_title U (str_strip (lit ''understanding cloud servers.'')) = lit ''Understanding Cloud Servers''"
  by (simp add: clean_title_def clean_word_def always_caps_def articles_prepositions_def
        str_defs Let_def)

lemma uc_words: "length (str_split (lit ''Understanding Cloud Servers'')) = 3"
  by (simp add: str_defs)

lemma uc_ne: "lit ''Understanding Cloud Servers'' \<noteq> []"
  by (simp add: lit_def)

lemma ai_confidence_0: "ai_confidence 0 = 9 / 10"
  by (simp add: ai_confidence_closed)

lemma ai_confidence_3: "ai_confidence (Suc (Suc (Suc 0))) = 6 / 10"
  by (simp add: ai_confidence_closed)

lemma uc_ai: "ai_loop U (\<lambda>i prompt. if i = 0 then Returns [lit ''understanding cloud servers.''] else Raises)
    (lit ''Cloud servers are a very good thing for all of us today'') 0 (Suc (Suc 0)) [] = 
   [\<lparr>title = lit ''Understanding Cloud Servers'', confidence = 9 / 10, method_name = AI\<rparr>]"
  by (simp add: uc_title uc_words uc_ne ai_confidence_0 Let_def)

lemma top_up_2: "top_up U c 2 [a] = [a, create_smart_fallback_title U c 1]"
  by (simp add: top_up_eq upt_rec)

text \<open>
  Claim C6. No two candidates of a response should share a title. With a model whose
  first attempt returns \<open>understanding cloud servers.\<close> and whose second attempt raises, two
  titles are requested for a text that starts with \<open>Cloud servers\<close>: the AI candidate is
  \<open>Understanding Cloud Servers\<close>, and the smart fallback of index 1 is the same title. The
  test of line 125 compares the dictionary with the titles and so never finds a duplicate
  (\<open>top_up_eq\<close>: the loop appends until the list is full).
\<close>

theorem generate_titles_duplicate:
  "generate_titles U (Some (\<lambda>i prompt. if i = 0 then Returns [lit ''understanding cloud servers.''] else Raises))
     (lit ''Cloud servers are a very good thing for all of us today'') 2
   = [\<lparr>title = lit ''Understanding Cloud Servers'', confidence = 9 / 10, method_name = AI\<rparr>,
      \<lparr>title = lit ''Understanding Cloud Servers'', confidence = 6 / 10, method_name = SmartFallback\<rparr>]
  \<and> \<not> distinct (map title (generate_titles U (Some (\<lambda>i prompt. if i = 0 then Returns [lit ''understanding cloud servers.''] else Raises))
     (lit ''Cloud servers are a very good thing for all of us today'') 2))"
proof -
  have two: "nat (min 2 5) = Suc (Suc 0)" by simp
  have "generate_titles U (Some (\<lambda>i prompt. if i = 0 then Returns [lit ''understanding cloud servers.''] else Raises))
     (lit ''Cloud servers are a very good thing for all of us today'') 2
   = [\<lparr>title = lit ''Understanding Cloud Servers'', confidence = 9 / 10, method_name = AI\<rparr>,
      \<lparr>title = lit ''Understanding Cloud Servers'', confidence = 6 / 10, method_name = SmartFallback\<rparr>]"
    by (simp only: generate_titles_def Let_def cloud_clean cloud_split option.case two uc_ai top_up_2 cloud_smart_1)
      (simp add: slice_to_def)
  then show ?thesis by simp
qed

lemma words_title: "clean_title U (str_strip (lit ''a title of words'')) = lit ''A Title of Words''"
  by (simp add: clean_title_def clean_word_def always_caps_def articles_prepositions_def
        str_defs Let_def)

lemma words_words: "length (str_split (lit ''A Title of Words'')) = 4"
  by (simp add: str_defs)

lemma words_ne: "lit ''A Title of Words'' \<noteq> []"
  by (simp add: lit_def)

lemma late_ai: "ai_loop U (\<lambda>i prompt. if i = 3 then Returns [lit ''a title of words''] else Raises)
    c 0 (Suc (Suc (Suc (Suc 0)))) [] = 
   [\<lparr>title = lit ''A Title of Words'', confidence = 6 / 10, method_name = AI\<rparr>]"
  by (simp add: words_title words_words words_ne ai_confidence_3 Let_def)

lemma late_response:
  "generate_titles U (Some (\<lambda>i prompt. if i = 3 then Returns [lit ''a title of words''] else Raises))
     (lit ''Cloud servers are a very good thing for all of us today'') 4
   = \<lparr>title = lit ''A Title of Words'', confidence = 6 / 10, method_name = AI\<rparr>
     # map (create_smart_fallback_title U (lit ''Cloud servers are a very good thing for all of us today'')) [1, 2, 3]"
proof -
  have four: "nat (min 4 5) = Suc (Suc (Suc (Suc 0)))" by simp
  have up: "[Suc 0 ..< 4] = [1, 2, 3]" by (simp add: upt_rec)
  show ?thesis
    by (simp only: generate_titles_def Let_def cloud_clean cloud_split option.case four late_ai top_up_eq)
      (simp add: slice_to_def up)
qed

lemma letters_clean: "clean_content U (lit ''a b c d e f g h i j k'') = lit ''a b c d e f g h i j k''"
  by (simp add: clean_defs str_defs Let_def)

lemma letters_split: "str_split (lit ''a b c d e f g h i j k'')
   = map lit [''a'', ''b'', ''c'', ''d'', ''e'', ''f'', ''g'', ''h'', ''i'', ''j'', ''k'']"
  by (simp add: str_defs)

lemma letters_phrases: "key_phrases U (map lit [''a'', ''b'', ''c'', ''d'', ''e'', ''f'', ''g'', ''h'', ''i'', ''j'', ''k'']) = []"
  by (simp add: str_title_def Let_def lit_def is_ascii_def)

lemma letters_response:
  "generate_titles U None (lit ''a b c d e f g h i j k'') 3 = []"
  by (simp only: generate_titles_def Let_def letters_clean letters_split option.case
      rule_based_titles_def letters_phrases)
    simp

lemma short_split: "str_split (lit ''one two six ten red big hot old new bad'')
   = map lit [''one'', ''two'', ''six'', ''ten'', ''red'', ''big'', ''hot'', ''old'', ''new'', ''bad'']"
  by (simp add: str_defs)

lemma short_phrases: "key_phrases U (map lit [''one'', ''two'', ''six'', ''ten'', ''red'', ''big'', ''hot'', ''old'', ''new'', ''bad''])
  = map lit [''One Two'', ''Two Six'', ''Six Ten'', ''Ten Red'', ''Red Big'', ''Big Hot'', ''Hot Old'', ''Old New'', ''New Bad'']"
  by (simp add: str_title_def Let_def lit_def is_ascii_def ascii_lower_def ascii_upper_def ascii_is_upper_def ascii_is_lower_def)

lemma short_confidences:
  "map confidence (rule_based_titles U (lit ''one two six ten red big hot old new bad'') 8)
   = map rule_confidence [0, 1, 2, 3, 4, 5, 6, 7]"
proof -
  have up: "[0 ..< 8] = [0, 1, 2, 3, 4, 5, 6, 7::nat]"
    by (simp add: upt_rec)
  show ?thesis
    by (simp only: rule_based_titles_eq Let_def short_split short_phrases)
      (simp add: up rule_candidate_fields lit_def)
qed

section \<open>The three paths of \<open>generate_titles\<close>\<close>

lemma ai_loop_members:
  "t \<in> set (ai_loop U summ c i k titles) \<Longrightarrow>
   t \<in> set titles \<or> (method_name t = AI \<and> (\<exists>j. confidence t = ai_confidence j))"
proof (induction k arbitrary: i titles)
  case 0
  then show ?case by simp
next
  case (Suc k)
  let ?T = "case summ i (lit ''headline: '' @ c) of
          Raises \<Rightarrow> titles
        | Returns [] \<Rightarrow> titles
        | Returns (summary_text # others) \<Rightarrow>
            (let t = clean_title U (str_strip summary_text)
             in if t \<noteq> [] \<and> length (str_split t) \<ge> 3 \<and> t \<notin> set (map title titles)
                then titles @ [\<lparr>title = t, confidence = ai_confidence i, method_name = AI\<rparr>]
                else titles)"
  have T: "x \<in> set titles \<or> (method_name x = AI \<and> (\<exists>j. confidence x = ai_confidence j))"
    if "x \<in> set ?T" for x
    using that by (auto simp: Let_def split: outcome.splits list.splits if_splits)
  have "ai_loop U summ c i (Suc k) titles = ai_loop U summ c (Suc i) k ?T"
    by (simp only: ai_loop.simps)
  with Suc.prems have "t \<in> set (ai_loop U summ c (Suc i) k ?T)" by simp
  then have "t \<in> set ?T \<or> (method_name t = AI \<and> (\<exists>j. confidence t = ai_confidence j))"
    by (rule Suc.IH)
  with T show ?case by blast
qed

text \<open>The list built on the path with a model: the AI candidates, then the smart fallbacks.\<close>

lemma ai_path_confidences:
  fixes U summ c n
  defines "R \<equiv> top_up U c n (ai_loop U summ c 0 (nat (min n 5)) [])"
  shows "sorted_wrt (\<lambda>a b. confidence b \<le> confidence a) R
     \<and> (\<forall>t\<in>set R. (method_name t = AI \<and> 6 / 10 \<le> confidence t \<and> confidence t \<le> 9 / 10)
           \<or> (method_name t = SmartFallback \<and> confidence t = 6 / 10))"
proof -
  let ?k = "nat (min n 5)"
  let ?A = "ai_loop U summ c 0 ?k []"
  let ?S = "map (create_smart_fallback_title U c) [length ?A ..< nat n]"
  have inv: "sorted_wrt (\<lambda>a b. confidence b \<le> confidence a) ?A
     \<and> (\<forall>t\<in>set ?A. method_name t = AI \<and> ai_confidence (0 + ?k) \<le> confidence t)"
    by (rule ai_loop_inv) simp_all
  have A: "method_name t = AI \<and> 6 / 10 \<le> confidence t \<and> confidence t \<le> 9 / 10"
    if "t \<in> set ?A" for t
  proof -
    from that obtain j where "method_name t = AI" "confidence t = ai_confidence j"
      using ai_loop_members [of t U summ c 0 ?k "[]"] by auto
    then show ?thesis using ai_confidence_bounds [of j] by simp
  qed
  have S: "\<forall>t\<in>set ?S. method_name t = SmartFallback \<and> confidence t = 6 / 10"
    by (auto simp: smart_confidence)
  then have "sorted_wrt (\<lambda>a b. confidence b \<le> confidence a) ?S"
    by (intro constant_sorted [of _ "6 / 10"]) blast
  then have "sorted_wrt (\<lambda>a b. confidence b \<le> confidence a) (?A @ ?S)"
    using inv A S by (intro sorted_append_bound [where q = "6 / 10"]) auto
  moreover have "R = ?A @ ?S" by (simp add: R_def top_up_eq)
  ultimately show ?thesis using A S by auto
qed

lemma set_slice_to: "set (slice_to n xs) \<subseteq> set xs"
  by (auto simp: slice_to_def dest: in_set_takeD)

lemma sorted_slice_to:
  "sorted_wrt R xs \<Longrightarrow> sorted_wrt R (slice_to n xs)"
  by (simp add: slice_to_def sorted_wrt_take)

lemma ai_path_length:
  "length (slice_to n (top_up U c n (ai_loop U summ c 0 (nat (min n 5)) []))) \<le> nat n"
proof (cases "0 \<le> n")
  case True
  then show ?thesis by (simp add: slice_to_def)
next
  case False
  then have "top_up U c n (ai_loop U summ c 0 (nat (min n 5)) []) = []"
    by (simp add: top_up_eq)
  then show ?thesis by (simp add: slice_to_def)
qed

lemma generate_titles_cases:
  obtains (basic) "generate_titles U summarizer content n = fallback_titles (clean_content U content) n"
  | (rule) "generate_titles U summarizer content n = rule_based_titles U (clean_content U content) n"
  | (ai) summ where "generate_titles U summarizer content n
        = slice_to n (top_up U (clean_content U content) n
            (ai_loop U summ (clean_content U content) 0 (nat (min n 5)) []))"
proof (cases "length (str_split (clean_content U content)) < 10")
  case True
  then show ?thesis using basic by (simp add: generate_titles_def Let_def)
next
  case False
  show ?thesis
  proof (cases summarizer)
    case None
    with False show ?thesis using rule by (simp add: generate_titles_def Let_def)
  next
    case (Some summ)
    with False show ?thesis using ai [of summ] by (simp add: generate_titles_def Let_def)
  qed
qed

lemma generate_titles_length_nat:
  "length (generate_titles U summarizer content n) \<le> nat n"
proof (cases rule: generate_titles_cases [of U summarizer content n])
  case basic
  then show ?thesis by (simp add: fallback_titles_def)
next
  case rule
  then show ?thesis using rule_based_length [of U "clean_content U content" n] by simp
next
  case (ai summ)
  then show ?thesis using ai_path_length [of n U "clean_content U content" summ] by simp
qed

lemma generate_titles_sorted:
  "sorted_wrt (\<lambda>a b. confidence b \<le> confidence a) (generate_titles U summarizer content n)"
proof (cases rule: generate_titles_cases [of U summarizer content n])
  case basic
  have "sorted_wrt (\<lambda>a b. confidence b \<le> confidence a) (fallback_titles (clean_content U content) n)"
    using fallback_titles_confidence [of "clean_content U content" n]
    by (intro constant_sorted [of _ "4 / 10"]) blast
  with basic show ?thesis by simp
next
  case rule
  then show ?thesis using rule_based_sorted [of U "clean_content U content" n] by simp
next
  case (ai summ)
  have "sorted_wrt (\<lambda>a b. confidence b \<le> confidence a)
      (top_up U (clean_content U content) n (ai_loop U summ (clean_content U content) 0 (nat (min n 5)) []))"
    using ai_path_confidences [of U "clean_content U content" n summ] by (rule conjunct1)
  then have "sorted_wrt (\<lambda>a b. confidence b \<le> confidence a)
      (slice_to n (top_up U (clean_content U content) n (ai_loop U summ (clean_content U content) 0 (nat (min n 5)) [])))"
    by (rule sorted_slice_to)
  with ai show ?thesis by simp
qed

lemma generate_titles_tiers:
  assumes "t \<in> set (generate_titles U summarizer content n)"
  shows "(method_name t = AI \<and> 6 / 10 \<le> confidence t \<and> confidence t \<le> 9 / 10)
     \<or> (method_name t = RuleBased \<and> confidence t \<le> 7 / 10)
     \<or> (method_name t = SmartFallback \<and> confidence t = 6 / 10)
     \<or> (method_name t = BasicFallback \<and> confidence t = 4 / 10)"
proof (cases rule: generate_titles_cases [of U summarizer content n])
  case basic
  with assms show ?thesis using fallback_titles_confidence by metis
next
  case rule
  with assms show ?thesis using rule_based_confidence by metis
next
  case (ai summ)
  with assms have "t \<in> set (top_up U (clean_content U content) n
            (ai_loop U summ (clean_content U content) 0 (nat (min n 5)) []))"
    using set_slice_to by fastforce
  then show ?thesis using ai_path_confidences [of U "clean_content U content" n summ] by blast
qed

section \<open>Properties of \<open>generate_titles\<close> and \<open>post\<close>\<close>

text \<open>
  Claim C3, as amended. When the model handle is unavailable and the cleaned text has at
  least 10 words, \<open>generate_titles\<close> returns the list of the rule-based tier as it is (line
  81): every candidate has the method \<open>rule_based\<close>, there are at most
  \<open>min(num_titles, phrase_count)\<close> of them, and no smart-fallback candidate tops the list up.
\<close>

theorem generate_titles_model_unavailable:
  assumes "10 \<le> length (str_split (clean_content U content))"
  shows "generate_titles U None content n = rule_based_titles U (clean_content U content) n
     \<and> (\<forall>t\<in>set (generate_titles U None content n). method_name t = RuleBased)
     \<and> length (generate_titles U None content n)
         \<le> nat (min n (int (length (key_phrases U (str_split (clean_content U content))))))"
proof -
  have eq: "generate_titles U None content n = rule_based_titles U (clean_content U content) n"
    using assms by (simp add: generate_titles_def Let_def)
  show ?thesis
    using rule_based_confidence [of U "clean_content U content" n]
      rule_based_length [of U "clean_content U content" n]
    by (simp add: eq)
qed

theorem generate_titles_model_unavailable_witness:
  "10 \<le> length (str_split (clean_content ascii_tables
      (lit ''Cloud servers are a very good thing for all of us today'')))
   \<and> generate_titles ascii_tables None
        (lit ''Cloud servers are a very good thing for all of us today'') 3
     = rule_based_titles ascii_tables (clean_content ascii_tables
        (lit ''Cloud servers are a very good thing for all of us today'')) 3"
proof -
  have h: "10 \<le> length (str_split (clean_content ascii_tables
      (lit ''Cloud servers are a very good thing for all of us today'')))"
    by (simp add: cloud_clean cloud_split)
  show ?thesis
    using h generate_titles_model_unavailable [OF h, of 3] by simp
qed

text \<open>
  Claim C3 as stated fails on \<open>a b c d e f g h i j k\<close> with 3 titles requested and no model:
  the text has 11 words and no key phrase (every two-word window has 3 characters), the
  rule-based tier yields no candidate, and the empty list is returned, although the top-up
  loop on that list would not have left it empty.
\<close>

theorem generate_titles_no_top_up:
  "10 \<le> length (str_split (clean_content ascii_tables (lit ''a b c d e f g h i j k'')))
   \<and> generate_titles ascii_tables None (lit ''a b c d e f g h i j k'') 3 = []
   \<and> top_up ascii_tables (clean_content ascii_tables (lit ''a b c d e f g h i j k'')) 3
        (rule_based_titles ascii_tables
          (clean_content ascii_tables (lit ''a b c d e f g h i j k'')) 3) \<noteq> []"
proof -
  have 1: "10 \<le> length (str_split (clean_content ascii_tables (lit ''a b c d e f g h i j k'')))"
    by (simp add: letters_clean letters_split)
  have 2: "generate_titles ascii_tables None (lit ''a b c d e f g h i j k'') 3 = []"
    by (rule letters_response)
  have "rule_based_titles ascii_tables (lit ''a b c d e f g h i j k'') 3 = []"
    by (simp only: rule_based_titles_def Let_def letters_split letters_phrases) simp
  then have 3: "top_up ascii_tables (clean_content ascii_tables (lit ''a b c d e f g h i j k'')) 3
        (rule_based_titles ascii_tables
          (clean_content ascii_tables (lit ''a b c d e f g h i j k'')) 3) \<noteq> []"
    by (simp add: letters_clean top_up_eq upt_rec)
  from 1 2 3 show ?thesis by simp
qed

lemma cloud_strip: "str_strip (lit ''Cloud servers are a very good thing for all of us today'')
   = lit ''Cloud servers are a very good thing for all of us today''"
  by (simp add: str_strip_def lit_def is_space_def)

lemma cloud_length: "length (lit ''Cloud servers are a very good thing for all of us today'') = 55"
  by (simp add: lit_def)

lemma keys_differ: "lit ''max_suggestions'' \<noteq> lit ''content''"
  by (simp add: lit_def)

text \<open>
  Claim C5. \<open>generate_titles\<close> never returns more candidates than requested (none for a
  request of zero or less); for \<open>num_titles\<close> from 1 to 5 the list has at most \<open>num_titles\<close>
  and so at most 5 elements; and every successful response of \<open>post\<close> carries at most 5
  suggestions, whatever the request.
\<close>

theorem generate_titles_length:
  "length (generate_titles U summarizer content n) \<le> nat n
   \<and> (1 \<le> n \<and> n \<le> 5 \<longrightarrow>
        int (length (generate_titles U summarizer content n)) \<le> n
        \<and> length (generate_titles U summarizer content n) \<le> 5)
   \<and> (post U int_of_str summarizer data = Response200 suggestions \<longrightarrow> length suggestions \<le> 5)"
proof -
  have g: "length (generate_titles U summarizer c m) \<le> nat m" for c m
    by (rule generate_titles_length_nat)
  have p: "length suggestions \<le> 5" if "post U int_of_str summarizer data = Response200 suggestions"
  proof (cases "post_args int_of_str data")
    case (Inl r)
    with that have "r = Response200 suggestions" by (simp add: post_def)
    with Inl show ?thesis
      by (auto simp: post_args_def Let_def split: json.splits option.splits if_splits)
  next
    case (Inr a)
    obtain c m where a: "a = (c, m)" by (cases a)
    with Inr have "m \<le> 5"
      by (auto simp: post_args_def Let_def split: json.splits option.splits if_splits)
    moreover have "suggestions = generate_titles U summarizer c m"
      using that Inr a by (simp add: post_def)
    ultimately show ?thesis using g [of c m] by simp
  qed
  show ?thesis using g [of content n] p by auto
qed

theorem generate_titles_length_witness:
  "(1::int) \<le> 3 \<and> (3::int) \<le> 5
   \<and> int (length (generate_titles ascii_tables None
        (lit ''Cloud servers are a very good thing for all of us today'') 3)) \<le> 3
   \<and> post ascii_tables (\<lambda>s. None) None
        [lit ''content'' \<mapsto> JStr (lit ''Cloud servers are a very good thing for all of us today'')]
      = Response200 (generate_titles ascii_tables None
          (lit ''Cloud servers are a very good thing for all of us today'') 3)
   \<and> length (generate_titles ascii_tables None
        (lit ''Cloud servers are a very good thing for all of us today'') 3) \<le> 5"
proof -
  let ?c = "lit ''Cloud servers are a very good thing for all of us today''"
  let ?d = "[lit ''content'' \<mapsto> JStr ?c]"
  have a: "post_args (\<lambda>s. None) ?d = Inr (?c, 3)"
    by (simp add: post_args_def dict_get_def py_int_def keys_differ cloud_strip cloud_length Let_def)
      (simp add: lit_def)
  have p: "post ascii_tables (\<lambda>s. None) None ?d = Response200 (generate_titles ascii_tables None ?c 3)"
    by (simp add: post_def a)
  show ?thesis
    using p generate_titles_length [of ascii_tables None ?c 3 "\<lambda>s. None" ?d
        "generate_titles ascii_tables None ?c 3"]
    by simp
qed

text \<open>
  Claim C7, as amended. In every response the confidences are non-increasing in the order
  of the list, and the confidence of the AI attempts is non-increasing in the attempt. An
  AI candidate has a confidence from 0.6 to 0.9, a smart fallback 0.6, a basic fallback
  0.4, a rule-based candidate at most 0.7. So an AI candidate is at least, not strictly
  above, a smart fallback, which is strictly above a basic fallback; the rule-based
  confidences are not separated from those of the other tiers.
\<close>

theorem generate_titles_confidences:
  "sorted_wrt (\<lambda>a b. confidence b \<le> confidence a) (generate_titles U summarizer content n)
   \<and> (\<forall>t\<in>set (generate_titles U summarizer content n).
        (method_name t = AI \<longrightarrow> 6 / 10 \<le> confidence t \<and> confidence t \<le> 9 / 10)
      \<and> (method_name t = RuleBased \<longrightarrow> confidence t \<le> 7 / 10)
      \<and> (method_name t = SmartFallback \<longrightarrow> confidence t = 6 / 10)
      \<and> (method_name t = BasicFallback \<longrightarrow> confidence t = 4 / 10))
   \<and> (i \<le> j \<longrightarrow> ai_confidence j \<le> ai_confidence i)"
proof -
  have "(method_name t = AI \<longrightarrow> 6 / 10 \<le> confidence t \<and> confidence t \<le> 9 / 10)
      \<and> (method_name t = RuleBased \<longrightarrow> confidence t \<le> 7 / 10)
      \<and> (method_name t = SmartFallback \<longrightarrow> confidence t = 6 / 10)
      \<and> (method_name t = BasicFallback \<longrightarrow> confidence t = 4 / 10)"
    if "t \<in> set (generate_titles U summarizer content n)" for t
    using generate_titles_tiers [OF that] by auto
  then show ?thesis
    using generate_titles_sorted [of U summarizer content n] ai_confidence_antitone [of i j]
    by blast
qed

theorem generate_titles_confidences_witness:
  "generate_titles ascii_tables
       (Some (\<lambda>i prompt. if i = 0 then Returns [lit ''understanding cloud servers.''] else Raises))
       (lit ''Cloud servers are a very good thing for all of us today'') 2
     = [\<lparr>title = lit ''Understanding Cloud Servers'', confidence = 9 / 10, method_name = AI\<rparr>,
        \<lparr>title = lit ''Understanding Cloud Servers'', confidence = 6 / 10, method_name = SmartFallback\<rparr>]
   \<and> sorted_wrt (\<lambda>a b. confidence b \<le> confidence a)
     (generate_titles ascii_tables
       (Some (\<lambda>i prompt. if i = 0 then Returns [lit ''understanding cloud servers.''] else Raises))
       (lit ''Cloud servers are a very good thing for all of us today'') 2)
   \<and> \<lparr>title = lit ''Understanding Cloud Servers'', confidence = 9 / 10, method_name = AI\<rparr>
       \<in> set (generate_titles ascii_tables
       (Some (\<lambda>i prompt. if i = 0 then Returns [lit ''understanding cloud servers.''] else Raises))
       (lit ''Cloud servers are a very good thing for all of us today'') 2)
   \<and> (6 / 10 :: rat) \<le> 9 / 10 \<and> (9 / 10 :: rat) \<le> 9 / 10
   \<and> (0::nat) \<le> 3 \<and> ai_confidence 3 \<le> ai_confidence 0"
proof -
  have two: "nat (min 2 5) = Suc (Suc 0)" by simp
  have e: "generate_titles ascii_tables
       (Some (\<lambda>i prompt. if i = 0 then Returns [lit ''understanding cloud servers.''] else Raises))
       (lit ''Cloud servers are a very good thing for all of us today'') 2
     = [\<lparr>title = lit ''Understanding Cloud Servers'', confidence = 9 / 10, method_name = AI\<rparr>,
        \<lparr>title = lit ''Understanding Cloud Servers'', confidence = 6 / 10, method_name = SmartFallback\<rparr>]"
    by (simp only: generate_titles_def Let_def cloud_clean cloud_split option.case two uc_ai top_up_2 cloud_smart_1)
      (simp add: slice_to_def)
  show ?thesis
    using e generate_titles_confidences [of ascii_tables
       "Some (\<lambda>i prompt. if i = 0 then Returns [lit ''understanding cloud servers.''] else Raises)"
       "lit ''Cloud servers are a very good thing for all of us today''" 2 0 3]
    by simp
qed

text \<open>
  Claim C7 as stated fails when only the fourth attempt (index 3) of a request for 4 titles
  succeeds: its AI candidate has the confidence \<open>max(0.9 - 0.3, 0.6) = 0.6\<close>, and the smart
  fallback after it in the same response has 0.6 as well.
\<close>

theorem ai_not_above_smart_fallback:
  "method_name (generate_titles ascii_tables
       (Some (\<lambda>i prompt. if i = 3 then Returns [lit ''a title of words''] else Raises))
       (lit ''Cloud servers are a very good thing for all of us today'') 4 ! 0) = AI
   \<and> method_name (generate_titles ascii_tables
       (Some (\<lambda>i prompt. if i = 3 then Returns [lit ''a title of words''] else Raises))
       (lit ''Cloud servers are a very good thing for all of us today'') 4 ! 1) = SmartFallback
   \<and> \<not> confidence (generate_titles ascii_tables
       (Some (\<lambda>i prompt. if i = 3 then Returns [lit ''a title of words''] else Raises))
       (lit ''Cloud servers are a very good thing for all of us today'') 4 ! 1)
      < confidence (generate_titles ascii_tables
       (Some (\<lambda>i prompt. if i = 3 then Returns [lit ''a title of words''] else Raises))
       (lit ''Cloud servers are a very good thing for all of us today'') 4 ! 0)"
  by (simp add: late_response smart_confidence)

text \<open>
  Claim C8 as stated fails for 8 titles on a text with 9 key phrases: the eighth candidate
  (index 7) has the confidence \<open>0.7 - 7 * 0.1\<close>, which in floating point is \<open>- 2^-53\<close>
  (\<open>7 * 0.1\<close> is the double above \<open>0.7\<close>), a negative number and not
  \<open>max(0.7 - 7 * 0.1, 0) = 0\<close>.
\<close>

theorem rule_based_negative_confidence:
  "length (rule_based_titles ascii_tables (lit ''one two six ten red big hot old new bad'') 8) = 8
   \<and> confidence (rule_based_titles ascii_tables (lit ''one two six ten red big hot old new bad'') 8 ! 7)
       = - (1 / 2 ^ 53)
   \<and> confidence (rule_based_titles ascii_tables (lit ''one two six ten red big hot old new bad'') 8 ! 7) < 0
   \<and> confidence (rule_based_titles ascii_tables (lit ''one two six ten red big hot old new bad'') 8 ! 7)
       \<noteq> max (rule_confidence 7) 0"
proof -
  let ?R = "rule_based_titles ascii_tables (lit ''one two six ten red big hot old new bad'') 8"
  have m: "map confidence ?R = map rule_confidence [0, 1, 2, 3, 4, 5, 6, 7]"
    by (rule short_confidences)
  then have l: "length ?R = 8"
    using length_map [of confidence ?R] by simp
  then have "confidence (?R ! 7) = map confidence ?R ! 7" by simp
  then have c: "confidence (?R ! 7) = rule_confidence 7" by (simp add: m)
  have "max (rule_confidence 7) 0 = 0" by (simp add: rule_confidence_7)
  with l c show ?thesis by (simp add: rule_confidence_7)
qed

text \<open>
  Claim C4, as amended. When the request passes the validation, the value passed to
  \<open>generate_titles\<close> is \<open>min(int(max_suggestions), 5)\<close>, with 3 for an absent
  \<open>max_suggestions\<close>: it is at most 5 and has no lower bound. When \<open>int\<close> refuses the value,
  the response is the failure with status 500 and \<open>generate_titles\<close> is not called.
\<close>

theorem post_args_max_suggestions:
  "(post_args int_of_str data = Inr (content, n) \<longrightarrow>
      (\<exists>m. py_int int_of_str (dict_get data (lit ''max_suggestions'') (JInt 3)) = Some m
           \<and> n = min m 5)
      \<and> n \<le> 5
      \<and> (data (lit ''max_suggestions'') = None \<longrightarrow> n = 3)
      \<and> 20 \<le> length content \<and> length content \<le> 5000)
   \<and> (py_int int_of_str (dict_get data (lit ''max_suggestions'') (JInt 3)) = None \<longrightarrow>
        post_args int_of_str data = Inl Response500
        \<and> post U int_of_str summarizer data = Response500)"
proof -
  have 1: "(\<exists>m. py_int int_of_str (dict_get data (lit ''max_suggestions'') (JInt 3)) = Some m
           \<and> n = min m 5)
      \<and> n \<le> 5
      \<and> (data (lit ''max_suggestions'') = None \<longrightarrow> n = 3)
      \<and> 20 \<le> length content \<and> length content \<le> 5000"
    if "post_args int_of_str data = Inr (content, n)"
  proof -
    from that obtain m where m: "py_int int_of_str (dict_get data (lit ''max_suggestions'') (JInt 3)) = Some m"
      and n: "n = min m 5" and c: "20 \<le> length content" "length content \<le> 5000"
      by (auto simp: post_args_def Let_def split: json.splits option.splits if_splits)
    have "n = 3" if "data (lit ''max_suggestions'') = None"
      using that m n by (simp add: dict_get_def py_int_def)
    with m n c show ?thesis by auto
  qed
  have 2: "post_args int_of_str data = Inl Response500"
    if "py_int int_of_str (dict_get data (lit ''max_suggestions'') (JInt 3)) = None"
    using that by (simp add: post_args_def Let_def split: json.splits)
  then have "post U int_of_str summarizer data = Response500"
    if "py_int int_of_str (dict_get data (lit ''max_suggestions'') (JInt 3)) = None"
    using that by (simp add: post_def)
  with 1 2 show ?thesis by blast
qed

theorem post_args_max_suggestions_witness:
  "post_args (\<lambda>s. None)
      [lit ''content'' \<mapsto> JStr (lit ''Cloud servers are a very good thing for all of us today''),
       lit ''max_suggestions'' \<mapsto> JInt 7]
     = Inr (lit ''Cloud servers are a very good thing for all of us today'', 5)
   \<and> (\<exists>m. py_int (\<lambda>s. None) (dict_get
        [lit ''content'' \<mapsto> JStr (lit ''Cloud servers are a very good thing for all of us today''),
         lit ''max_suggestions'' \<mapsto> JInt 7] (lit ''max_suggestions'') (JInt 3)) = Some m
        \<and> (5::int) = min m 5)
   \<and> py_int (\<lambda>s. None) (dict_get [lit ''max_suggestions'' \<mapsto> JNull]
        (lit ''max_suggestions'') (JInt 3)) = None
   \<and> post ascii_tables (\<lambda>s. None) None [lit ''max_suggestions'' \<mapsto> JNull] = Response500"
proof -
  let ?c = "lit ''Cloud servers are a very good thing for all of us today''"
  let ?d = "[lit ''content'' \<mapsto> JStr ?c, lit ''max_suggestions'' \<mapsto> JInt 7]"
  let ?e = "[lit ''max_suggestions'' \<mapsto> JNull]"
  have a: "post_args (\<lambda>s. None) ?d = Inr (?c, 5)"
    using keys_differ
    by (simp add: post_args_def dict_get_def py_int_def cloud_strip cloud_length Let_def)
      (simp add: lit_def)
  have b: "py_int (\<lambda>s. None) (dict_get ?e (lit ''max_suggestions'') (JInt 3)) = None"
    by (simp add: dict_get_def py_int_def)
  show ?thesis
    using a b post_args_max_suggestions [of "\<lambda>s. None" ?d ?c 5]
      post_args_max_suggestions [of "\<lambda>s. None" ?e _ _ ascii_tables None]
    by blast
qed

text \<open>
  Claim C4 as stated fails on a valid content with \<open>max_suggestions\<close> 0, which is passed on
  as 0, and with \<open>max_suggestions\<close> \<open>null\<close>, which gives the status 500 and not the default.
\<close>

theorem post_args_not_clamped_below:
  "post_args (\<lambda>s. None)
      [lit ''content'' \<mapsto> JStr (lit ''Cloud servers are a very good thing for all of us today''),
       lit ''max_suggestions'' \<mapsto> JInt 0]
     = Inr (lit ''Cloud servers are a very good thing for all of us today'', 0)
   \<and> post_args (\<lambda>s. None)
      [lit ''content'' \<mapsto> JStr (lit ''Cloud servers are a very good thing for all of us today''),
       lit ''max_suggestions'' \<mapsto> JNull]
     = Inl Response500"
  using keys_differ
  by (simp add: post_args_def dict_get_def py_int_def cloud_strip cloud_length Let_def)
    (simp add: lit_def)

end
